theory Spec2Isabelle
  imports Complex_Main "HOL-Library.Word" "HOL-Library.Log_Nat"
begin

section \<open>The greenhouse controller (KGHS-Final-Edits.ino)\<close>

text \<open>
  The firmware runs three FreeRTOS tasks over two global structs, \<open>sysConfig\<close> and
  \<open>sysState\<close>. Every access to \<open>sysState\<close> happens between \<open>xSemaphoreTake\<close> and
  \<open>xSemaphoreGive\<close> on one mutex, so the body of each task's critical section is
  one atomic step on the shared state; each task below is the function computed by one
  pass through its \<open>while (true)\<close> body.

  Numbers. A C \<open>float\<close> held in \<open>sysConfig\<close> or \<open>sysState\<close> is
  modelled by the real number it denotes: the control logic only compares floats, and on
  values that are not NaN the IEEE comparison is the order of the reals. NaN never
  reaches \<open>sysState\<close> (\<open>sensorTask\<close> replaces it by the sentinel) and a JSON
  number is never NaN. The one float computation, the linear map of
  \<open>mapMoisture\<close>, is modelled operation by operation: the subtractions of
  32-bit \<open>int\<close>s with their wrap-around, the conversion to \<open>float\<close>, the
  product and the quotient in \<open>double\<close> and the store into a \<open>float\<close>,
  each rounded to nearest, ties to even. The values of type \<open>int\<close> (the raw
  reading and the two calibration points) are integers in the range \<open>int32\<close>;
  the sum of the ten samples stays inside the range of \<open>long\<close> (lemma
  \<open>sample_sum_fits\<close>). The millisecond clock \<open>millis()\<close> is an
  \<open>unsigned long\<close> of 32 bits whose wrap-around the firmware relies on, so it
  is a \<open>32 word\<close>.
\<close>

subsection \<open>System state and configuration\<close>

record Config =
  temp_high :: real
  temp_low :: real
  hum_low :: real
  hum_high :: real
  moisture_dry :: real
  moisture_target :: real
  adc_wet :: int
  adc_dry :: int

text \<open>The member initialisers of \<open>struct Config\<close>.\<close>

definition sysConfig_default :: Config where
  "sysConfig_default =
     \<lparr> temp_high = 22, temp_low = 20, hum_low = 45, hum_high = 50,
       moisture_dry = 45, moisture_target = 60, adc_wet = 1500, adc_dry = 4095 \<rparr>"

record State =
  temp :: real
  humidity :: real
  moisture :: real
  pump_on :: bool
  fan_on :: bool
  lights_on :: bool
  humidifier_is_on :: bool

text \<open>The member initialisers of \<open>struct State\<close>: the state at boot.\<close>

definition sysState_boot :: State where
  "sysState_boot =
     \<lparr> temp = 0, humidity = 0, moisture = 0, pump_on = False, fan_on = False,
       lights_on = False, humidifier_is_on = False \<rparr>"

subsection \<open>Control task\<close>

text \<open>
  One pass of \<open>controlTask\<close> through its critical section. The three blocks run in
  the order of the source: temperature, humidity, soil.
\<close>

definition control_temperature :: "Config \<Rightarrow> State \<Rightarrow> State" where
  "control_temperature cfg s =
     (if temp s > temp_high cfg then s\<lparr>fan_on := True, lights_on := False\<rparr>
      else if temp s < temp_low cfg then s\<lparr>lights_on := True, fan_on := False\<rparr>
      else s\<lparr>fan_on := False, lights_on := False\<rparr>)"

definition control_humidity :: "Config \<Rightarrow> State \<Rightarrow> State" where
  "control_humidity cfg s =
     (if humidity s < hum_low cfg then s\<lparr>humidifier_is_on := True\<rparr>
      else if humidity s > hum_high cfg then s\<lparr>humidifier_is_on := False\<rparr>
      else s)"

definition control_soil :: "Config \<Rightarrow> State \<Rightarrow> State" where
  "control_soil cfg s =
     (if moisture s < moisture_dry cfg then s\<lparr>pump_on := True\<rparr>
      else if moisture s > moisture_target cfg then s\<lparr>pump_on := False\<rparr>
      else s)"

definition controlTask :: "Config \<Rightarrow> State \<Rightarrow> State" where
  "controlTask cfg s = control_soil cfg (control_humidity cfg (control_temperature cfg s))"

text \<open>
  The four \<open>digitalWrite\<close> calls of the pass, in order: each copies one actuator flag
  of the new state to its pin (26 fan, 27 lights, 14 humidifier, 25 pump).
\<close>

definition relay_writes :: "State \<Rightarrow> (nat \<times> bool) list" where
  "relay_writes s =
     [(26, fan_on s), (27, lights_on s), (14, humidifier_is_on s), (25, pump_on s)]"

subsection \<open>Machine arithmetic\<close>

text \<open>
  The range of a 32-bit \<open>int\<close> (and of \<open>long\<close> on this target), and the
  two's-complement subtraction of the processor: the difference of two \<open>int\<close>s that
  leaves the range wraps around.
\<close>

definition int32 :: "int \<Rightarrow> bool" where
  "int32 x \<longleftrightarrow> - 2147483648 \<le> x \<and> x \<le> 2147483647"

definition wrap32 :: "int \<Rightarrow> int" where
  "wrap32 x = (x + 2147483648) mod 4294967296 - 2147483648"

definition sub32 :: "int \<Rightarrow> int \<Rightarrow> int" where
  "sub32 a b = wrap32 (a - b)"

text \<open>
  A binary floating-point value is a pair \<open>(m, e)\<close> of integers standing for
  \<open>m \<times> 2 ^ e\<close>. Every operation rounds its exact result to the nearest value with
  \<open>p\<close> significant bits, ties to the even mantissa: \<open>p = 24\<close> for \<open>float\<close>,
  \<open>p = 53\<close> for \<open>double\<close>. The exponent is not bounded: the values of
  \<open>mapMoisture\<close> are 0 or of magnitude between \<open>100 / 2 ^ 31\<close> and
  \<open>100 \<times> 2 ^ 31\<close>, inside the normal range of both formats.
\<close>

type_synonym bin = "int \<times> int"

definition bin_val :: "bin \<Rightarrow> real" where
  "bin_val f = real_of_int (fst f) * 2 powi (snd f)"

text \<open>The integer nearest to \<open>n / d\<close> for \<open>d > 0\<close>, ties to even.\<close>

definition round_half_even :: "int \<Rightarrow> int \<Rightarrow> int" where
  "round_half_even n d =
     (let q = n div d; r = n mod d
      in if 2 * r < d then q else if d < 2 * r then q + 1 else if even q then q else q + 1)"

text \<open>The exponent of the leading bit of \<open>a / b\<close> for positive \<open>a\<close> and \<open>b\<close>.\<close>

definition ilog2_quot :: "int \<Rightarrow> int \<Rightarrow> int" where
  "ilog2_quot a b =
     (let t = bitlen a - bitlen b
      in if b * 2 ^ nat t \<le> a * 2 ^ nat (- t) then t else t - 1)"

text \<open>The quotient \<open>a / b\<close>, \<open>b \<noteq> 0\<close>, rounded to \<open>p\<close> significant bits.\<close>

definition round_quot :: "nat \<Rightarrow> int \<Rightarrow> int \<Rightarrow> bin" where
  "round_quot p a b =
     (if a = 0 then (0, 0)
      else
        let k = ilog2_quot \<bar>a\<bar> \<bar>b\<bar> - (int p - 1);
            m = round_half_even (\<bar>a\<bar> * 2 ^ nat (- k)) (\<bar>b\<bar> * 2 ^ nat k)
        in (sgn a * sgn b * m, k))"

text \<open>
  The four operations of the linear map: the conversion \<open>(float) n\<close> of an
  \<open>int\<close>; the product of a \<open>float\<close>, promoted to \<open>double\<close>, with a
  \<open>double\<close> constant that is an integer; the quotient of a \<open>double\<close> by an
  \<open>int\<close> converted to \<open>double\<close>; and the store of a \<open>double\<close> into a
  \<open>float\<close>.
\<close>

definition int_to_float :: "int \<Rightarrow> bin" where
  "int_to_float n = round_quot 24 n 1"

definition double_mul :: "bin \<Rightarrow> int \<Rightarrow> bin" where
  "double_mul f c = (let (m, k) = round_quot 53 (fst f * c) 1 in (m, k + snd f))"

definition double_div :: "bin \<Rightarrow> int \<Rightarrow> bin" where
  "double_div f d = (let (m, k) = round_quot 53 (fst f) d in (m, k + snd f))"

definition double_to_float :: "bin \<Rightarrow> bin" where
  "double_to_float f = (let (m, k) = round_quot 24 (fst f) 1 in (m, k + snd f))"

subsection \<open>Soil moisture mapping\<close>

text \<open>
  \<open>mapMoisture\<close> reads the calibration from the global \<open>sysConfig\<close>, here its
  first argument. The two guards return the sentinel; the linear map is the expression
  \<open>(float)(raw - dryValue) * 100.0 / (wetValue - dryValue)\<close> stored into a
  \<open>float\<close>; the two clamping statements run in the order of the source.
\<close>

definition mapMoisture :: "Config \<Rightarrow> int \<Rightarrow> real" where
  "mapMoisture cfg raw =
     (if raw \<le> 0 then - 999
      else
        let dryValue = adc_dry cfg;
            wetValue = adc_wet cfg
        in if dryValue = wetValue then - 999
           else
             let percentage =
                   bin_val (double_to_float
                     (double_div (double_mul (int_to_float (sub32 raw dryValue)) 100)
                        (sub32 wetValue dryValue)));
                 percentage = (if percentage > 100 then 100 else percentage);
                 percentage = (if percentage < 0 then 0 else percentage)
             in percentage)"

text \<open>
  Rounding as a function on the reals, to reason about the operations above: the integer
  nearest to \<open>t\<close>, ties to even, and the value with \<open>p\<close> significant bits nearest
  to \<open>x\<close>. The float result of the linear map for the differences \<open>n\<close> and
  \<open>d\<close> is \<open>float_pct n d\<close>.
\<close>

definition rhe :: "real \<Rightarrow> int" where
  "rhe t =
     (let f = \<lfloor>t\<rfloor>
      in if t - of_int f < 1 / 2 then f
         else if 1 / 2 < t - of_int f then f + 1
         else if even f then f else f + 1)"

definition rnd :: "nat \<Rightarrow> real \<Rightarrow> real" where
  "rnd p x =
     (if x = 0 then 0
      else
        let k = \<lfloor>log 2 \<bar>x\<bar>\<rfloor> - (int p - 1)
        in sgn x * real_of_int (rhe (\<bar>x\<bar> / 2 powi k)) * 2 powi k)"

definition float_pct :: "int \<Rightarrow> int \<Rightarrow> real" where
  "float_pct n d = rnd 24 (rnd 53 (rnd 53 (rnd 24 (real_of_int n) * 100) / real_of_int d))"

subsection \<open>Effects\<close>

text \<open>
  What a task does besides updating the two structs, in the order it does it: a read of
  the converter, a \<open>vTaskDelay\<close> of so many milliseconds, the calls into the
  Firebase client (\<open>Firebase.begin\<close>, \<open>RTDB.setJSON\<close> with the snapshot pushed,
  \<open>RTDB.getJSON\<close>), a call of \<open>saveConfig\<close> with the configuration it writes,
  and a line on the serial log.
\<close>

datatype effect =
    AdcRead
  | Delay nat
  | FirebaseBegin
  | SetJSON State
  | GetJSON
  | SaveConfig Config
  | Log string

subsection \<open>Sensor task\<close>

text \<open>C's integer division truncates towards zero.\<close>

definition c_div :: "int \<Rightarrow> int \<Rightarrow> int" where
  "c_div a b = sgn a * sgn b * (\<bar>a\<bar> div \<bar>b\<bar>)"

text \<open>
  The oversampling loop \<open>for (int i = 0; i < 10; i++) { sum += analogRead(ADC_PIN);
  vTaskDelay(pdMS_TO_TICKS(5)); }\<close>. The converter is a function from the number of
  the read to the \<open>uint16_t\<close> it returns; the accumulator carries \<open>sum\<close> and the
  effects so far.
\<close>

function sample_loop :: "(nat \<Rightarrow> 16 word) \<Rightarrow> nat \<Rightarrow> int \<times> effect list \<Rightarrow> int \<times> effect list" where
  "sample_loop analogRead i acc =
     (if i < 10
      then sample_loop analogRead (i + 1)
             (fst acc + uint (analogRead i), snd acc @ [AdcRead, Delay 5])
      else acc)"
  by pat_completeness auto
termination
  by (relation "measure (\<lambda>(analogRead, i, acc). 10 - i)") auto

declare sample_loop.simps [simp del]

text \<open>
  What one pass of \<open>sensorTask\<close> reads: the two values of the DHT driver, \<open>None\<close>
  standing for NaN, and the converter. The pass stores the three readings under the
  mutex; its debug line on the serial port is left out.
\<close>

record SensorInput =
  readTemperature :: "real option"
  readHumidity :: "real option"
  analogRead :: "nat \<Rightarrow> 16 word"

definition sensorTask :: "SensorInput \<Rightarrow> Config \<Rightarrow> State \<Rightarrow> State \<times> effect list" where
  "sensorTask inp cfg s =
     (let t = (case readTemperature inp of None \<Rightarrow> - 999 | Some tempRead \<Rightarrow> tempRead);
          h = (case readHumidity inp of None \<Rightarrow> - 999 | Some humRead \<Rightarrow> humRead);
          (sum, effs) = sample_loop (analogRead inp) 0 (0, []);
          raw_adc = c_div sum 10;
          m = mapMoisture cfg raw_adc
      in (s\<lparr>temp := t, humidity := h, moisture := m\<rparr>, effs @ [Delay 2000]))"

subsection \<open>Firebase task\<close>

text \<open>
  Arduino's \<open>String::indexOf(const String&)\<close>: the position of the first occurrence
  of the argument, found by \<open>strstr\<close>, or \<open>-1\<close>; on an empty string it is
  \<open>-1\<close> whatever the argument.
\<close>

fun startsWith :: "string \<Rightarrow> string \<Rightarrow> bool" where
  "startsWith s [] = True"
| "startsWith [] (c # cs) = False"
| "startsWith (x # xs) (c # cs) = (x = c \<and> startsWith xs cs)"

fun strstr :: "string \<Rightarrow> string \<Rightarrow> nat \<Rightarrow> int" where
  "strstr [] s2 i = (if s2 = [] then int i else - 1)"
| "strstr (x # xs) s2 i = (if startsWith (x # xs) s2 then int i else strstr xs s2 (Suc i))"

definition indexOf :: "string \<Rightarrow> string \<Rightarrow> int" where
  "indexOf s s2 = (if length s = 0 then - 1 else strstr s s2 0)"

text \<open>The globals \<open>firebaseReady\<close> and \<open>lastAuthAttempt\<close>.\<close>

record Session =
  firebaseReady :: bool
  lastAuthAttempt :: "32 word"

definition session_boot :: Session where
  "session_boot = \<lparr> firebaseReady = False, lastAuthAttempt = 0 \<rparr>"

definition authRetryInterval :: "32 word" where
  "authRetryInterval = 30000"

text \<open>
  The answer of \<open>RTDB.getJSON\<close>: a failure with \<open>fbdo.errorReason()\<close>, a success
  whose \<open>FirebaseJson\<close> pointer is null, or the object at \<open>/greenhouse/config\<close>
  as its keys with the \<open>floatValue\<close> found at each.
\<close>

datatype pulled = PullFailed string | PullNull | PullJson "(string \<times> real) list"

text \<open>
  What one pass of \<open>firebaseTask\<close> gets from outside: the two readings of
  \<open>millis()\<close> in the authentication branch (the one compared and the one stored),
  \<open>Firebase.ready()\<close> after \<open>Firebase.begin\<close>, \<open>Firebase.ready()\<close> before the
  sync, the outcome of \<open>setJSON\<close> (\<open>None\<close> for success, else the error reason) and
  the outcome of \<open>getJSON\<close>.
\<close>

record Net =
  millis_check :: "32 word"
  millis_stamp :: "32 word"
  handshake_ready :: bool
  sync_ready :: bool
  push_result :: "string option"
  pull_result :: pulled

text \<open>
  The block under \<open>if (cfgJson)\<close>: the two fields the firmware reads from the pulled
  object, the flag \<open>changed\<close>, and the one \<open>saveConfig\<close> behind it.
\<close>

definition read_config :: "(string \<times> real) list \<Rightarrow> Config \<Rightarrow> Config \<times> effect list" where
  "read_config cfgJson cfg =
     (let changed = False;
          (cfg, changed) =
            (case map_of cfgJson ''temp_high'' of
               Some floatValue \<Rightarrow>
                 if floatValue \<noteq> temp_high cfg then (cfg\<lparr>temp_high := floatValue\<rparr>, True)
                 else (cfg, changed)
             | None \<Rightarrow> (cfg, changed));
          (cfg, changed) =
            (case map_of cfgJson ''temp_low'' of
               Some floatValue \<Rightarrow>
                 if floatValue \<noteq> temp_low cfg then (cfg\<lparr>temp_low := floatValue\<rparr>, True)
                 else (cfg, changed)
             | None \<Rightarrow> (cfg, changed))
      in (cfg, if changed then [SaveConfig cfg] else []))"

text \<open>
  One pass of the \<open>while (true)\<close> body of \<open>firebaseTask\<close>, on the session and the
  configuration, with the snapshot \<open>localState\<close> of the shared state it pushes.
\<close>

definition firebaseTask :: "Net \<Rightarrow> State \<Rightarrow> Session \<times> Config \<Rightarrow> (Session \<times> Config) \<times> effect list" where
  "firebaseTask net localState sc =
     (let (ss, cfg) = sc in
      if \<not> firebaseReady ss then
        (if millis_check net - lastAuthAttempt ss > authRetryInterval then
           (let ss = ss\<lparr>lastAuthAttempt := millis_stamp net\<rparr> in
            if handshake_ready net
            then ((ss\<lparr>firebaseReady := True\<rparr>, cfg),
                  [Log ''Attempting Firebase authentication...'', FirebaseBegin, Delay 2000,
                   Log ''Firebase authenticated successfully'', Delay 1000])
            else ((ss, cfg),
                  [Log ''Attempting Firebase authentication...'', FirebaseBegin, Delay 2000,
                   Log ''Firebase authentication failed'', Delay 1000]))
         else ((ss, cfg), [Delay 1000]))
      else if sync_ready net then
        (let (ss, pushed) =
               (case push_result net of
                  None \<Rightarrow> (ss, [SetJSON localState])
                | Some errorReason \<Rightarrow>
                    (if indexOf errorReason ''auth'' \<ge> 0 \<or> indexOf errorReason ''token'' \<ge> 0
                     then ss\<lparr>firebaseReady := False\<rparr> else ss,
                     [SetJSON localState, Log (''Firebase write failed: '' @ errorReason)]));
             (cfg, pulled) =
               (case pull_result net of
                  PullJson cfgJson \<Rightarrow>
                    (let (cfg, saved) = read_config cfgJson cfg in (cfg, GetJSON # saved))
                | PullNull \<Rightarrow> (cfg, [GetJSON])
                | PullFailed errorReason \<Rightarrow>
                    (cfg, [GetJSON, Log (''Config read failed: '' @ errorReason)]))
         in ((ss, cfg), pushed @ pulled @ [Delay 5000]))
      else ((ss\<lparr>firebaseReady := False\<rparr>, cfg), [Delay 5000]))"

text \<open>
  The \<open>while (true)\<close> loop of \<open>firebaseTask\<close> over a finite number of passes, each
  with what it gets from outside and the snapshot it reads.
\<close>

fun firebase_passes :: "(Net \<times> State) list \<Rightarrow> Session \<times> Config \<Rightarrow> (Session \<times> Config) \<times> effect list" where
  "firebase_passes [] sc = (sc, [])"
| "firebase_passes ((net, localState) # rest) sc =
     (let (sc, effs) = firebaseTask net localState sc;
          (sc, more) = firebase_passes rest sc
      in (sc, effs @ more))"

subsection \<open>The tasks running together\<close>

text \<open>
  The critical sections interleave in any order. Seen from the shared state, a pass of
  \<open>sensorTask\<close> stores three readings, \<open>firebaseTask\<close> (or \<open>loadConfig\<close>)
  stores thresholds, and a pass of \<open>controlTask\<close> recomputes the actuators.
\<close>

datatype task_event =
    SensorUpdate real real real
  | ConfigUpdate Config
  | ControlPass

fun task_step :: "task_event \<Rightarrow> Config \<times> State \<Rightarrow> Config \<times> State" where
  "task_step (SensorUpdate t h m) (cfg, s) = (cfg, s\<lparr>temp := t, humidity := h, moisture := m\<rparr>)"
| "task_step (ConfigUpdate cfg') (cfg, s) = (cfg', s)"
| "task_step ControlPass (cfg, s) = (cfg, controlTask cfg s)"

fun run :: "task_event list \<Rightarrow> Config \<times> State \<Rightarrow> Config \<times> State" where
  "run [] cs = cs"
| "run (e # es) cs = run es (task_step e cs)"

section \<open>Properties\<close>

subsection \<open>One control pass\<close>

text \<open>
  Each actuator flag after a pass, read off the three \<open>if\<close> chains. The readings are
  not touched.
\<close>

lemma controlTask_readings:
  "temp (controlTask cfg s) = temp s"
  "humidity (controlTask cfg s) = humidity s"
  "moisture (controlTask cfg s) = moisture s"
  by (simp_all add: controlTask_def control_soil_def control_humidity_def
      control_temperature_def)

lemma controlTask_fan:
  "fan_on (controlTask cfg s) = (temp s > temp_high cfg)"
  by (simp add: controlTask_def control_soil_def control_humidity_def
      control_temperature_def)

lemma controlTask_lights:
  "lights_on (controlTask cfg s) = (\<not> temp s > temp_high cfg \<and> temp s < temp_low cfg)"
  by (simp add: controlTask_def control_soil_def control_humidity_def
      control_temperature_def)

lemma controlTask_humidifier:
  "humidifier_is_on (controlTask cfg s) =
     (if humidity s < hum_low cfg then True
      else if humidity s > hum_high cfg then False
      else humidifier_is_on s)"
  by (simp add: controlTask_def control_soil_def control_humidity_def
      control_temperature_def)

lemma controlTask_pump:
  "pump_on (controlTask cfg s) =
     (if moisture s < moisture_dry cfg then True
      else if moisture s > moisture_target cfg then False
      else pump_on s)"
  by (simp add: controlTask_def control_soil_def control_humidity_def
      control_temperature_def)

text \<open>
  C1. Temperature control is a reset-to-off band. For every thresholds configuration
  (\<open>temp_low\<close> not above \<open>temp_high\<close>) and every prior state, one pass of
  \<open>controlTask\<close> sets the fan on and the lights off when \<open>temp > temp_high\<close>, sets
  the lights on and the fan off when \<open>temp < temp_low\<close>, and sets both off when
  \<open>temp_low \<le> temp \<le> temp_high\<close>. The prior actuator flags play no part.
\<close>

theorem temperature_band:
  assumes "temp_low cfg \<le> temp_high cfg"
  shows
    "(temp s > temp_high cfg \<longrightarrow>
        fan_on (controlTask cfg s) \<and> \<not> lights_on (controlTask cfg s)) \<and>
     (temp s < temp_low cfg \<longrightarrow>
        lights_on (controlTask cfg s) \<and> \<not> fan_on (controlTask cfg s)) \<and>
     (temp_low cfg \<le> temp s \<and> temp s \<le> temp_high cfg \<longrightarrow>
        \<not> fan_on (controlTask cfg s) \<and> \<not> lights_on (controlTask cfg s))"
  using assms by (auto simp add: controlTask_fan controlTask_lights)

text \<open>
  The three cases at the default thresholds 20 and 22: a reading of 23, a reading of 19,
  and a reading of 21 with the fan running before the pass.
\<close>

theorem temperature_band_witness:
  "temp_low sysConfig_default \<le> temp_high sysConfig_default \<and>
   temp (sysState_boot\<lparr>temp := 23\<rparr>) > temp_high sysConfig_default \<and>
   fan_on (controlTask sysConfig_default (sysState_boot\<lparr>temp := 23\<rparr>)) \<and>
   \<not> lights_on (controlTask sysConfig_default (sysState_boot\<lparr>temp := 23\<rparr>)) \<and>
   temp (sysState_boot\<lparr>temp := 19\<rparr>) < temp_low sysConfig_default \<and>
   lights_on (controlTask sysConfig_default (sysState_boot\<lparr>temp := 19\<rparr>)) \<and>
   \<not> fan_on (controlTask sysConfig_default (sysState_boot\<lparr>temp := 19\<rparr>)) \<and>
   temp_low sysConfig_default \<le> temp (sysState_boot\<lparr>temp := 21, fan_on := True\<rparr>) \<and>
   temp (sysState_boot\<lparr>temp := 21, fan_on := True\<rparr>) \<le> temp_high sysConfig_default \<and>
   \<not> fan_on (controlTask sysConfig_default (sysState_boot\<lparr>temp := 21, fan_on := True\<rparr>)) \<and>
   \<not> lights_on (controlTask sysConfig_default (sysState_boot\<lparr>temp := 21, fan_on := True\<rparr>))"
  using temperature_band [where cfg = sysConfig_default and s = "sysState_boot\<lparr>temp := 23\<rparr>"]
    temperature_band [where cfg = sysConfig_default and s = "sysState_boot\<lparr>temp := 19\<rparr>"]
    temperature_band [where cfg = sysConfig_default and s = "sysState_boot\<lparr>temp := 21, fan_on := True\<rparr>"]
  by (simp add: sysConfig_default_def sysState_boot_def)

subsection \<open>Fan and lights exclude each other\<close>

lemma fan_lights_step:
  "\<not> (fan_on (snd cs) \<and> lights_on (snd cs)) \<Longrightarrow>
   \<not> (fan_on (snd (task_step e cs)) \<and> lights_on (snd (task_step e cs)))"
  by (cases e; cases cs) (simp_all add: controlTask_fan controlTask_lights)

lemma fan_lights_run:
  "\<not> (fan_on (snd cs) \<and> lights_on (snd cs)) \<Longrightarrow>
   \<not> (fan_on (snd (run evs cs)) \<and> lights_on (snd (run evs cs)))"
proof (induction evs arbitrary: cs)
  case Nil
  then show ?case by simp
next
  case (Cons e evs)
  from Cons.prems have "\<not> (fan_on (snd (task_step e cs)) \<and> lights_on (snd (task_step e cs)))"
    by (rule fan_lights_step)
  then show ?case using Cons.IH by simp
qed

text \<open>
  A pass of \<open>sensorTask\<close> is a sensor update of the shared state; \<open>firebaseTask\<close>
  has no access to it but the snapshot it reads.
\<close>

lemma sensorTask_is_update:
  "task_step
     (SensorUpdate (temp (fst (sensorTask inp cfg s))) (humidity (fst (sensorTask inp cfg s)))
        (moisture (fst (sensorTask inp cfg s))))
     (cfg, s) = (cfg, fst (sensorTask inp cfg s))"
  by (simp add: sensorTask_def Let_def split: prod.splits)

text \<open>
  C2. From the boot state, whatever configuration was loaded, and after every sequence
  of sensor updates, threshold updates and control passes in any order, \<open>fan_on\<close> and
  \<open>lights_on\<close> are not both true.
\<close>

theorem fan_lights_exclusive:
  "\<not> (fan_on (snd (run evs (cfg, sysState_boot))) \<and> lights_on (snd (run evs (cfg, sysState_boot))))"
  by (rule fan_lights_run) (simp add: sysState_boot_def)

text \<open>A run that heats up, then has its thresholds swapped under it.\<close>

theorem fan_lights_exclusive_witness:
  "\<not> (fan_on (snd (run [SensorUpdate 25 40 30, ControlPass,
                          ConfigUpdate (sysConfig_default\<lparr>temp_high := 10, temp_low := 30\<rparr>),
                          SensorUpdate 20 40 30, ControlPass] (sysConfig_default, sysState_boot))) \<and>
       lights_on (snd (run [SensorUpdate 25 40 30, ControlPass,
                          ConfigUpdate (sysConfig_default\<lparr>temp_high := 10, temp_low := 30\<rparr>),
                          SensorUpdate 20 40 30, ControlPass] (sysConfig_default, sysState_boot))))"
  by (rule fan_lights_exclusive)

subsection \<open>The fault sentinel in the control pass\<close>

text \<open>
  C3. The control pass compares the sentinel like any reading. With thresholds above
  \<open>-999\<close>, a temperature of \<open>-999\<close> turns the lights on, a humidity of \<open>-999\<close>
  turns the humidifier on and a moisture of \<open>-999\<close> turns the pump on, whatever the
  prior state: a sensor fault alone actuates its channel.
\<close>

theorem sentinel_reading_actuates:
  "(temp s = - 999 \<and> - 999 < temp_low cfg \<and> - 999 \<le> temp_high cfg \<longrightarrow>
      lights_on (controlTask cfg s)) \<and>
   (humidity s = - 999 \<and> - 999 < hum_low cfg \<longrightarrow> humidifier_is_on (controlTask cfg s)) \<and>
   (moisture s = - 999 \<and> - 999 < moisture_dry cfg \<longrightarrow> pump_on (controlTask cfg s))"
  by (auto simp add: controlTask_lights controlTask_humidifier controlTask_pump)

text \<open>At boot, with the default thresholds and all three sensors failing.\<close>

theorem sentinel_reading_actuates_witness:
  "\<not> lights_on sysState_boot \<and> \<not> humidifier_is_on sysState_boot \<and> \<not> pump_on sysState_boot \<and>
   lights_on (controlTask sysConfig_default
     (sysState_boot\<lparr>temp := - 999, humidity := - 999, moisture := - 999\<rparr>)) \<and>
   humidifier_is_on (controlTask sysConfig_default
     (sysState_boot\<lparr>temp := - 999, humidity := - 999, moisture := - 999\<rparr>)) \<and>
   pump_on (controlTask sysConfig_default
     (sysState_boot\<lparr>temp := - 999, humidity := - 999, moisture := - 999\<rparr>))"
  using sentinel_reading_actuates [where cfg = sysConfig_default and
      s = "sysState_boot\<lparr>temp := - 999, humidity := - 999, moisture := - 999\<rparr>"]
  by (simp add: sysConfig_default_def sysState_boot_def)

subsection \<open>Humidity and soil: hold in band\<close>

text \<open>
  C4. Humidity and moisture are held in band. For thresholds that form a band
  (\<open>hum_low\<close> not above \<open>hum_high\<close>, \<open>moisture_dry\<close> not above
  \<open>moisture_target\<close>) and a value strictly inside it, a pass leaves
  \<open>humidifier_is_on\<close> (\<open>pump_on\<close>) as it was; below the low bound it turns the
  actuator on; above the high bound it turns it off.
\<close>

theorem hold_in_band:
  assumes "hum_low cfg \<le> hum_high cfg" and "moisture_dry cfg \<le> moisture_target cfg"
  shows
    "(hum_low cfg < humidity s \<and> humidity s < hum_high cfg \<longrightarrow>
        humidifier_is_on (controlTask cfg s) = humidifier_is_on s) \<and>
     (humidity s < hum_low cfg \<longrightarrow> humidifier_is_on (controlTask cfg s)) \<and>
     (hum_high cfg < humidity s \<longrightarrow> \<not> humidifier_is_on (controlTask cfg s)) \<and>
     (moisture_dry cfg < moisture s \<and> moisture s < moisture_target cfg \<longrightarrow>
        pump_on (controlTask cfg s) = pump_on s) \<and>
     (moisture s < moisture_dry cfg \<longrightarrow> pump_on (controlTask cfg s)) \<and>
     (moisture_target cfg < moisture s \<longrightarrow> \<not> pump_on (controlTask cfg s))"
  using assms by (auto simp add: controlTask_humidifier controlTask_pump)

text \<open>
  At the default bands (45 to 50, 45 to 60): inside with the actuators running, below,
  and above.
\<close>

theorem hold_in_band_witness:
  "hum_low sysConfig_default \<le> hum_high sysConfig_default \<and>
   moisture_dry sysConfig_default \<le> moisture_target sysConfig_default \<and>
   humidifier_is_on (controlTask sysConfig_default
     (sysState_boot\<lparr>humidity := 47, moisture := 50, pump_on := True, humidifier_is_on := True\<rparr>)) \<and>
   pump_on (controlTask sysConfig_default
     (sysState_boot\<lparr>humidity := 47, moisture := 50, pump_on := True, humidifier_is_on := True\<rparr>)) \<and>
   humidifier_is_on (controlTask sysConfig_default (sysState_boot\<lparr>humidity := 40, moisture := 30\<rparr>)) \<and>
   pump_on (controlTask sysConfig_default (sysState_boot\<lparr>humidity := 40, moisture := 30\<rparr>)) \<and>
   \<not> humidifier_is_on (controlTask sysConfig_default
     (sysState_boot\<lparr>humidity := 55, moisture := 70, pump_on := True, humidifier_is_on := True\<rparr>)) \<and>
   \<not> pump_on (controlTask sysConfig_default
     (sysState_boot\<lparr>humidity := 55, moisture := 70, pump_on := True, humidifier_is_on := True\<rparr>))"
  using hold_in_band [where cfg = sysConfig_default and
      s = "sysState_boot\<lparr>humidity := 47, moisture := 50, pump_on := True, humidifier_is_on := True\<rparr>"]
    hold_in_band [where cfg = sysConfig_default and
      s = "sysState_boot\<lparr>humidity := 40, moisture := 30\<rparr>"]
    hold_in_band [where cfg = sysConfig_default and
      s = "sysState_boot\<lparr>humidity := 55, moisture := 70, pump_on := True, humidifier_is_on := True\<rparr>"]
  by (simp add: sysConfig_default_def sysState_boot_def)

subsection \<open>Rounding\<close>

text \<open>
  The integer nearest to a real is within \<open>1 / 2\<close> of it, the rounding is
  monotone and leaves integers alone; on a quotient of integers the executable
  \<open>round_half_even\<close> computes it.
\<close>

lemma rhe_bounds: "\<bar>real_of_int (rhe t) - t\<bar> \<le> 1 / 2"
proof -
  have "of_int \<lfloor>t\<rfloor> \<le> t" "t < of_int \<lfloor>t\<rfloor> + 1" by linarith+
  then show ?thesis
    by (auto simp add: rhe_def Let_def)
qed

lemma rhe_mono:
  assumes "s \<le> t"
  shows "rhe s \<le> rhe t"
proof (rule ccontr)
  assume "\<not> rhe s \<le> rhe t"
  then have "rhe t + 1 \<le> rhe s" by simp
  then have gap: "real_of_int (rhe t) + 1 \<le> real_of_int (rhe s)"
    by (metis of_int_1 of_int_add of_int_le_iff)
  from rhe_bounds [of s] rhe_bounds [of t] gap assms have "s = t"
    by linarith
  with \<open>\<not> rhe s \<le> rhe t\<close> show False by simp
qed

lemma rhe_of_int [simp]: "rhe (of_int n) = n"
  by (simp add: rhe_def)

lemma rhe_nonneg: "0 \<le> t \<Longrightarrow> 0 \<le> rhe t"
  using rhe_mono [of 0 t] rhe_of_int [of 0] by simp

lemma round_half_even_eq:
  assumes "0 < d"
  shows "round_half_even n d = rhe (real_of_int n / real_of_int d)"
proof -
  have fl: "\<lfloor>real_of_int n / real_of_int d\<rfloor> = n div d"
    by (simp add: floor_divide_of_int_eq)
  have "real_of_int n = real_of_int (n div d) * real_of_int d + real_of_int (n mod d)"
    by (metis of_int_add of_int_mult div_mult_mod_eq)
  then have frac: "real_of_int n / real_of_int d - real_of_int (n div d) =
      real_of_int (n mod d) / real_of_int d"
    using assms by (simp add: field_simps)
  have lt: "real_of_int (n mod d) / real_of_int d < 1 / 2 \<longleftrightarrow> 2 * (n mod d) < d"
    using assms by (simp add: field_simps) linarith
  have gt: "1 / 2 < real_of_int (n mod d) / real_of_int d \<longleftrightarrow> d < 2 * (n mod d)"
    using assms by (simp add: field_simps) linarith
  show ?thesis
    unfolding rhe_def round_half_even_def Let_def fl frac lt gt ..
qed

text \<open>
  Powers of two with integer exponents. A positive real lies in exactly one binade
  \<open>[2 powi e, 2 powi (e + 1))\<close>.
\<close>

lemma powr_powi: "(2::real) powr real_of_int n = 2 powi n"
  by (rule powr_real_of_int') simp_all

lemma powr_powi_Suc: "(2::real) powr (real_of_int n + 1) = 2 powi (n + 1)"
  using powr_powi [of "n + 1"] by simp

lemma binade:
  assumes "0 < x"
  shows "2 powi \<lfloor>log 2 x\<rfloor> \<le> x \<and> x < 2 powi (\<lfloor>log 2 x\<rfloor> + 1)"
  using floor_log_eq_powr_iff [of x 2 "\<lfloor>log 2 x\<rfloor>"] assms
  by (simp add: powr_powi powr_powi_Suc)

lemma binade_unique:
  assumes "0 < x" "2 powi e \<le> x" "x < 2 powi (e + 1)"
  shows "\<lfloor>log 2 x\<rfloor> = e"
  using floor_log_eq_powr_iff [of x 2 e] assms
  by (simp add: powr_powi powr_powi_Suc)


lemma powi_split: "(2::real) powi t = 2 ^ nat t / 2 ^ nat (- t)"
  by (cases "0 \<le> t") (simp_all add: power_int_def field_simps)

lemma powi_pos [simp]: "0 < (2::real) powi t"
  by simp

lemma powi_le_iff: "(2::real) powi m \<le> 2 powi n \<longleftrightarrow> m \<le> n"
proof
  assume le: "(2::real) powi m \<le> 2 powi n"
  show "m \<le> n"
  proof (rule ccontr)
    assume "\<not> m \<le> n"
    then have "(2::real) powi n < 2 powi m"
      by (intro power_int_strict_increasing) simp_all
    with le show False by simp
  qed
next
  assume "m \<le> n"
  then show "(2::real) powi m \<le> 2 powi n"
    by (intro power_int_increasing) simp_all
qed

lemma powi_less_iff: "(2::real) powi m < 2 powi n \<longleftrightarrow> m < n"
  by (metis powi_le_iff linorder_not_le)

text \<open>
  The exponent that \<open>ilog2_quot\<close> computes from the bit lengths is the floor of
  the binary logarithm of the quotient, so \<open>round_quot\<close> is \<open>rnd\<close> on the
  quotient.
\<close>

lemma bitlen_real_bounds:
  assumes "0 < a"
  shows "2 powi (bitlen a - 1) \<le> real_of_int a" "real_of_int a < 2 powi (bitlen a)"
proof -
  from assms have ge: "1 \<le> bitlen a"
    by (auto simp add: bitlen_alt_def)
  have lo: "2 ^ nat (bitlen a - 1) \<le> a" and hi: "a < 2 ^ nat (bitlen a)"
    using bitlen_bounds [OF assms] by simp_all
  from lo have "real_of_int (2 ^ nat (bitlen a - 1)) \<le> real_of_int a"
    by (simp only: of_int_le_iff)
  then show "2 powi (bitlen a - 1) \<le> real_of_int a"
    using ge by (simp add: power_int_nonneg_exp)
  from hi have "real_of_int a < real_of_int (2 ^ nat (bitlen a))"
    by (simp only: of_int_less_iff)
  then show "real_of_int a < 2 powi (bitlen a)"
    using ge by (simp add: power_int_nonneg_exp)
qed

lemma ilog2_quot_eq:
  assumes "0 < a" "0 < b"
  shows "ilog2_quot a b = \<lfloor>log 2 (real_of_int a / real_of_int b)\<rfloor>"
proof -
  define t where "t = bitlen a - bitlen b"
  let ?x = "real_of_int a / real_of_int b"
  have x: "0 < ?x" using assms by simp
  note ba = bitlen_real_bounds [OF assms(1)]
  note bb = bitlen_real_bounds [OF assms(2)]
  have rb: "0 < real_of_int b" using assms by simp
  have cond: "b * 2 ^ nat t \<le> a * 2 ^ nat (- t) \<longleftrightarrow> 2 powi t \<le> ?x"
  proof -
    have "b * 2 ^ nat t \<le> a * 2 ^ nat (- t) \<longleftrightarrow>
        real_of_int (b * 2 ^ nat t) \<le> real_of_int (a * 2 ^ nat (- t))"
      by (simp only: of_int_le_iff)
    also have "\<dots> \<longleftrightarrow> real_of_int b * 2 ^ nat t \<le> real_of_int a * 2 ^ nat (- t)"
      by simp
    also have "\<dots> \<longleftrightarrow> 2 powi t \<le> ?x"
      using rb by (simp add: powi_split field_simps)
    finally show ?thesis .
  qed
  have upper: "?x < 2 powi (t + 1)"
  proof -
    have "real_of_int a < 2 powi (bitlen a)" by (rule ba(2))
    also have "(2::real) powi (bitlen a) = 2 powi (t + 1) * 2 powi (bitlen b - 1)"
      by (simp add: t_def flip: power_int_add)
    also have "\<dots> \<le> 2 powi (t + 1) * real_of_int b"
      using bb(1) by (simp add: mult_left_mono)
    finally show ?thesis using rb by (simp add: field_simps)
  qed
  have lower: "2 powi (t - 1) \<le> ?x"
  proof -
    have "2 powi (t - 1) * real_of_int b \<le> 2 powi (t - 1) * 2 powi (bitlen b)"
      using bb(2) by (simp add: mult_left_mono)
    also have "\<dots> = (2::real) powi (bitlen a - 1)"
      by (simp add: t_def flip: power_int_add)
    also have "\<dots> \<le> real_of_int a" by (rule ba(1))
    finally show ?thesis using rb by (simp add: field_simps)
  qed
  show ?thesis
  proof (cases "b * 2 ^ nat t \<le> a * 2 ^ nat (- t)")
    case True
    then have "2 powi t \<le> ?x" using cond by simp
    then have "\<lfloor>log 2 ?x\<rfloor> = t"
      using x upper by (intro binade_unique)
    with True show ?thesis
      by (simp add: ilog2_quot_def Let_def flip: t_def)
  next
    case False
    then have "?x < 2 powi t" using cond by simp
    then have "?x < 2 powi (t - 1 + 1)" by simp
    with x lower have "\<lfloor>log 2 ?x\<rfloor> = t - 1"
      by (intro binade_unique)
    with False show ?thesis
      by (simp add: ilog2_quot_def Let_def flip: t_def)
  qed
qed

lemma round_quot_val:
  assumes "b \<noteq> 0"
  shows "bin_val (round_quot p a b) = rnd p (real_of_int a / real_of_int b)"
proof (cases "a = 0")
  case True
  then show ?thesis by (simp add: round_quot_def bin_val_def rnd_def)
next
  case False
  let ?x = "real_of_int a / real_of_int b"
  have nz: "?x \<noteq> 0" using False assms by simp
  have absx: "\<bar>?x\<bar> = real_of_int \<bar>a\<bar> / real_of_int \<bar>b\<bar>" by simp
  have pa: "0 < \<bar>a\<bar>" and pb: "0 < \<bar>b\<bar>" using False assms by simp_all
  define k where "k = ilog2_quot \<bar>a\<bar> \<bar>b\<bar> - (int p - 1)"
  have k: "k = \<lfloor>log 2 \<bar>?x\<bar>\<rfloor> - (int p - 1)"
    unfolding k_def absx by (simp only: ilog2_quot_eq [OF pa pb])
  have den: "0 < \<bar>b\<bar> * 2 ^ nat k" using pb by simp
  have "round_half_even (\<bar>a\<bar> * 2 ^ nat (- k)) (\<bar>b\<bar> * 2 ^ nat k) =
      rhe (real_of_int (\<bar>a\<bar> * 2 ^ nat (- k)) / real_of_int (\<bar>b\<bar> * 2 ^ nat k))"
    by (rule round_half_even_eq [OF den])
  also have "real_of_int (\<bar>a\<bar> * 2 ^ nat (- k)) / real_of_int (\<bar>b\<bar> * 2 ^ nat k) = \<bar>?x\<bar> / 2 powi k"
    by (simp add: powi_split field_simps)
  finally have m: "round_half_even (\<bar>a\<bar> * 2 ^ nat (- k)) (\<bar>b\<bar> * 2 ^ nat k) = rhe (\<bar>?x\<bar> / 2 powi k)" .
  have sg: "real_of_int (sgn a * sgn b) = sgn ?x"
    using False assms
    by (cases "0 < a"; cases "0 < b") (simp_all add: sgn_if zero_less_divide_iff)
  have "bin_val (round_quot p a b) =
      real_of_int (sgn a * sgn b) * real_of_int (rhe (\<bar>?x\<bar> / 2 powi k)) * 2 powi k"
    using False by (simp add: round_quot_def bin_val_def Let_def m flip: k_def)
  also have "\<dots> = rnd p ?x"
    using nz by (simp only: rnd_def Let_def sg flip: k) simp
  finally show ?thesis .
qed


text \<open>
  Rounding to \<open>p\<close> bits is odd, keeps a positive value inside the closure of its
  binade, and is therefore monotone.
\<close>

lemma rnd_zero [simp]: "rnd p 0 = 0"
  by (simp add: rnd_def)

lemma rnd_minus: "rnd p (- x) = - rnd p x"
  by (simp add: rnd_def Let_def)

lemma rnd_pos:
  "0 < x \<Longrightarrow>
   rnd p x = real_of_int (rhe (x / 2 powi (\<lfloor>log 2 x\<rfloor> - (int p - 1)))) * 2 powi (\<lfloor>log 2 x\<rfloor> - (int p - 1))"
  by (simp add: rnd_def Let_def)

lemma powi_add: "(2::real) powi (m + n) = 2 powi m * 2 powi n"
  by (simp add: power_int_add)

lemma rhe_pow2 [simp]: "rhe (2 ^ n) = 2 ^ n"
  using rhe_of_int [of "2 ^ n"] by simp

lemma pow_shift:
  assumes "k = e - (int p - 1)" "1 \<le> p"
  shows "(2::real) powi e = 2 ^ (p - 1) * 2 powi k"
    and "(2::real) powi (e + 1) = 2 ^ p * 2 powi k"
proof -
  have "e = int (p - 1) + k"
    using assms by (simp add: of_nat_diff)
  then have "(2::real) powi e = 2 powi (int (p - 1)) * 2 powi k"
    by (simp only: powi_add)
  then show "(2::real) powi e = 2 ^ (p - 1) * 2 powi k" by simp
  have "e + 1 = int p + k"
    using assms by simp
  then have "(2::real) powi (e + 1) = 2 powi (int p) * 2 powi k"
    by (simp only: powi_add)
  then show "(2::real) powi (e + 1) = 2 ^ p * 2 powi k" by simp
qed

lemma mant_bounds:
  assumes "0 < x" "1 \<le> p"
  shows "2 ^ (p - 1) \<le> x / 2 powi (\<lfloor>log 2 x\<rfloor> - (int p - 1))"
    and "x / 2 powi (\<lfloor>log 2 x\<rfloor> - (int p - 1)) < 2 ^ p"
proof -
  define e where "e = \<lfloor>log 2 x\<rfloor>"
  define k where "k = e - (int p - 1)"
  have b: "2 powi e \<le> x" "x < 2 powi (e + 1)"
    using binade [OF assms(1)] by (simp_all add: e_def)
  note lo = pow_shift(1) [OF k_def assms(2)]
  note hi = pow_shift(2) [OF k_def assms(2)]
  have "2 ^ (p - 1) \<le> x / 2 powi k"
    using b(1) unfolding lo by (simp add: field_simps)
  then show "2 ^ (p - 1) \<le> x / 2 powi (\<lfloor>log 2 x\<rfloor> - (int p - 1))"
    by (simp only: k_def e_def)
  have "x / 2 powi k < 2 ^ p"
    using b(2) unfolding hi by (simp add: field_simps)
  then show "x / 2 powi (\<lfloor>log 2 x\<rfloor> - (int p - 1)) < 2 ^ p"
    by (simp only: k_def e_def)
qed

lemma rnd_pos_bounds:
  assumes "0 < x" "1 \<le> p"
  shows "2 powi \<lfloor>log 2 x\<rfloor> \<le> rnd p x" and "rnd p x \<le> 2 powi (\<lfloor>log 2 x\<rfloor> + 1)"
proof -
  define e where "e = \<lfloor>log 2 x\<rfloor>"
  define k where "k = e - (int p - 1)"
  define t where "t = x / 2 powi k"
  have t: "2 ^ (p - 1) \<le> t" "t < 2 ^ p"
    using mant_bounds [OF assms] by (simp_all add: t_def k_def e_def)
  have "rhe (real_of_int (2 ^ (p - 1))) \<le> rhe t"
    using t(1) by (intro rhe_mono) simp
  then have m_lo: "2 ^ (p - 1) \<le> rhe t" by simp
  have "rhe t \<le> rhe (real_of_int (2 ^ p))"
    using t(2) by (intro rhe_mono) simp
  then have m_hi: "rhe t \<le> 2 ^ p" by simp
  have r: "rnd p x = real_of_int (rhe t) * 2 powi k"
    using assms(1) by (simp add: rnd_pos t_def k_def e_def)
  note lo = pow_shift(1) [OF k_def assms(2)]
  note hi = pow_shift(2) [OF k_def assms(2)]
  from m_lo have "real_of_int (2 ^ (p - 1)) \<le> real_of_int (rhe t)"
    by (simp only: of_int_le_iff)
  then have "2 ^ (p - 1) * 2 powi k \<le> real_of_int (rhe t) * 2 powi k"
    by (simp add: mult_right_mono)
  then show "2 powi \<lfloor>log 2 x\<rfloor> \<le> rnd p x"
    by (simp add: r lo flip: e_def)
  from m_hi have "real_of_int (rhe t) \<le> real_of_int (2 ^ p)"
    by (simp only: of_int_le_iff)
  then have "real_of_int (rhe t) * 2 powi k \<le> 2 ^ p * 2 powi k"
    by (simp add: mult_right_mono)
  then show "rnd p x \<le> 2 powi (\<lfloor>log 2 x\<rfloor> + 1)"
    by (simp add: r hi flip: e_def)
qed

lemma rnd_pos_pos: "0 < x \<Longrightarrow> 1 \<le> p \<Longrightarrow> 0 < rnd p x"
  using rnd_pos_bounds(1) [of x p] powi_pos [of "\<lfloor>log 2 x\<rfloor>"] by linarith

lemma rnd_nonneg: "0 \<le> x \<Longrightarrow> 1 \<le> p \<Longrightarrow> 0 \<le> rnd p x"
  using rnd_pos_pos [of x p] by (cases "x = 0") simp_all

lemma rnd_nonpos: "x \<le> 0 \<Longrightarrow> 1 \<le> p \<Longrightarrow> rnd p x \<le> 0"
  using rnd_nonneg [of "- x" p] by (simp add: rnd_minus)

lemma floor_log_mono: "0 < x \<Longrightarrow> x \<le> y \<Longrightarrow> \<lfloor>log 2 x\<rfloor> \<le> \<lfloor>log 2 y\<rfloor>"
  by (intro floor_mono) simp

lemma rnd_mono_pos:
  assumes "0 < x" "x \<le> y" "1 \<le> p"
  shows "rnd p x \<le> rnd p y"
proof -
  have y: "0 < y" using assms by simp
  have le: "\<lfloor>log 2 x\<rfloor> \<le> \<lfloor>log 2 y\<rfloor>"
    using assms by (intro floor_log_mono)
  show ?thesis
  proof (cases "\<lfloor>log 2 x\<rfloor> = \<lfloor>log 2 y\<rfloor>")
    case True
    have "x / 2 powi (\<lfloor>log 2 y\<rfloor> - (int p - 1)) \<le> y / 2 powi (\<lfloor>log 2 y\<rfloor> - (int p - 1))"
      using assms(2) by (simp add: divide_right_mono)
    then have "rhe (x / 2 powi (\<lfloor>log 2 y\<rfloor> - (int p - 1))) \<le> rhe (y / 2 powi (\<lfloor>log 2 y\<rfloor> - (int p - 1)))"
      by (rule rhe_mono)
    then have "real_of_int (rhe (x / 2 powi (\<lfloor>log 2 y\<rfloor> - (int p - 1))))
        \<le> real_of_int (rhe (y / 2 powi (\<lfloor>log 2 y\<rfloor> - (int p - 1))))"
      by (simp only: of_int_le_iff)
    then show ?thesis
      by (simp add: rnd_pos assms(1) y True mult_right_mono)
  next
    case False
    with le have "\<lfloor>log 2 x\<rfloor> + 1 \<le> \<lfloor>log 2 y\<rfloor>" by simp
    then have "(2::real) powi (\<lfloor>log 2 x\<rfloor> + 1) \<le> 2 powi \<lfloor>log 2 y\<rfloor>"
      by (simp only: powi_le_iff)
    with rnd_pos_bounds(2) [OF assms(1,3)] rnd_pos_bounds(1) [OF y assms(3)]
    show ?thesis by linarith
  qed
qed

lemma rnd_mono:
  assumes "x \<le> y" "1 \<le> p"
  shows "rnd p x \<le> rnd p y"
proof -
  consider "0 < x" | "x \<le> 0" "0 \<le> y" | "y < 0" by linarith
  then show ?thesis
  proof cases
    case 1
    then show ?thesis using assms by (intro rnd_mono_pos)
  next
    case 2
    then show ?thesis
      using rnd_nonpos [of x p] rnd_nonneg [of y p] assms(2) by linarith
  next
    case 3
    then have "rnd p (- y) \<le> rnd p (- x)"
      using assms by (intro rnd_mono_pos) simp_all
    then show ?thesis by (simp add: rnd_minus)
  qed
qed



text \<open>
  Rounding commutes with scaling by a power of two, and an integer of magnitude at most
  \<open>2 ^ p\<close> is its own rounding.
\<close>

lemma floor_log_scale:
  assumes "0 < x"
  shows "\<lfloor>log 2 (x * 2 powi j)\<rfloor> = \<lfloor>log 2 x\<rfloor> + j"
proof (rule binade_unique)
  show "0 < x * 2 powi j" using assms by simp
  have b: "2 powi \<lfloor>log 2 x\<rfloor> \<le> x" "x < 2 powi (\<lfloor>log 2 x\<rfloor> + 1)"
    using binade [OF assms] by simp_all
  have "(2::real) powi (\<lfloor>log 2 x\<rfloor> + j) = 2 powi \<lfloor>log 2 x\<rfloor> * 2 powi j"
    by (simp add: power_int_add)
  then show "2 powi (\<lfloor>log 2 x\<rfloor> + j) \<le> x * 2 powi j"
    using b(1) by (simp add: mult_right_mono)
  have "(2::real) powi (\<lfloor>log 2 x\<rfloor> + j + 1) = 2 powi (\<lfloor>log 2 x\<rfloor> + 1) * 2 powi j"
    by (simp add: power_int_add)
  then show "x * 2 powi j < 2 powi (\<lfloor>log 2 x\<rfloor> + j + 1)"
    using b(2) by (simp add: mult_strict_right_mono)
qed

lemma rnd_scale_pos:
  assumes "0 < x"
  shows "rnd p (x * 2 powi j) = rnd p x * 2 powi j"
proof -
  have xj: "0 < x * 2 powi j" using assms by simp
  define k where "k = \<lfloor>log 2 x\<rfloor> - (int p - 1)"
  have k': "\<lfloor>log 2 (x * 2 powi j)\<rfloor> - (int p - 1) = k + j"
    by (simp add: floor_log_scale [OF assms] k_def)
  have "x * 2 powi j / 2 powi (k + j) = x / 2 powi k"
    by (simp add: power_int_add)
  then show ?thesis
    by (simp add: rnd_pos [OF xj] rnd_pos [OF assms] k' power_int_add flip: k_def)
qed

lemma rnd_scale: "rnd p (x * 2 powi j) = rnd p x * 2 powi j"
proof -
  consider "0 < x" | "x = 0" | "x < 0" by linarith
  then show ?thesis
  proof cases
    case 1
    then show ?thesis by (rule rnd_scale_pos)
  next
    case 2
    then show ?thesis by simp
  next
    case 3
    then have "rnd p ((- x) * 2 powi j) = rnd p (- x) * 2 powi j"
      by (intro rnd_scale_pos) simp
    then show ?thesis by (simp add: rnd_minus)
  qed
qed

lemma rnd_int_exact_pos:
  assumes "0 < n" "n \<le> 2 ^ p" "1 \<le> p"
  shows "rnd p (real_of_int n) = real_of_int n"
proof -
  let ?x = "real_of_int n"
  have x: "0 < ?x" using assms by simp
  define e where "e = \<lfloor>log 2 ?x\<rfloor>"
  define k where "k = e - (int p - 1)"
  have b: "2 powi e \<le> ?x" using binade [OF x] by (simp add: e_def)
  have r: "rnd p ?x = real_of_int (rhe (?x / 2 powi k)) * 2 powi k"
    using x by (simp add: rnd_pos k_def e_def)
  have "\<exists>m. ?x / 2 powi k = real_of_int m"
  proof (cases "n = 2 ^ p")
    case True
    have "\<lfloor>log 2 ?x\<rfloor> = int p"
    proof (rule binade_unique [OF x])
      show "2 powi int p \<le> ?x" using True by simp
      show "?x < 2 powi (int p + 1)" using True by (simp add: power_int_add)
    qed
    then have "k = 1" by (simp add: k_def e_def)
    moreover have "(2::real) ^ p = 2 * 2 ^ (p - 1)"
      using assms(3) by (cases p) simp_all
    ultimately have "?x / 2 powi k = real_of_int (2 ^ (p - 1))"
      using True by simp
    then show ?thesis ..
  next
    case False
    with assms(2) have "n < 2 ^ p" by simp
    then have "?x < real_of_int (2 ^ p)" by (simp only: of_int_less_iff)
    then have "?x < 2 powi (int p)" by simp
    with b have "(2::real) powi e < 2 powi (int p)" by linarith
    then have "e < int p" by (simp only: powi_less_iff)
    then have "k \<le> 0" by (simp add: k_def)
    then have "(2::real) powi k = 1 / 2 ^ nat (- k)"
      by (simp add: powi_split)
    then have "?x / 2 powi k = real_of_int (n * 2 ^ nat (- k))"
      by simp
    then show ?thesis ..
  qed
  then obtain m where "?x / 2 powi k = real_of_int m" ..
  then have "real_of_int (rhe (?x / 2 powi k)) = ?x / 2 powi k" by simp
  then show ?thesis by (simp add: r)
qed

lemma rnd_int_exact:
  assumes "\<bar>n\<bar> \<le> 2 ^ p" "1 \<le> p"
  shows "rnd p (real_of_int n) = real_of_int n"
proof -
  consider "0 < n" | "n = 0" | "n < 0" by linarith
  then show ?thesis
  proof cases
    case 1
    then show ?thesis using assms by (intro rnd_int_exact_pos) simp_all
  next
    case 2
    then show ?thesis by simp
  next
    case 3
    then have "rnd p (real_of_int (- n)) = real_of_int (- n)"
      using assms by (intro rnd_int_exact_pos) simp_all
    then show ?thesis by (simp add: rnd_minus)
  qed
qed

subsection \<open>Soil moisture: the mapping and the sampling loop\<close>

text \<open>
  A difference inside the range of \<open>int\<close> does not wrap. Each floating-point
  operation returns the rounding of its exact result, so the linear map computes
  \<open>float_pct\<close> of the two differences.
\<close>

lemma wrap32_id: "int32 x \<Longrightarrow> wrap32 x = x"
  by (simp add: int32_def wrap32_def)

lemma sub32_id: "int32 (a - b) \<Longrightarrow> sub32 a b = a - b"
  by (simp add: sub32_def wrap32_id)

text \<open>
  Two different values of type \<open>int\<close> have a wrapped difference other than 0:
  past the guard \<open>dryValue == wetValue\<close> the code never divides by zero.
\<close>

lemma sub32_nonzero:
  assumes "int32 a" "int32 b" "a \<noteq> b"
  shows "sub32 a b \<noteq> 0"
proof
  assume "sub32 a b = 0"
  then have "(a - b + 2147483648) mod 4294967296 = 2147483648 mod 4294967296"
    by (simp add: sub32_def wrap32_def)
  then have "4294967296 dvd (a - b + 2147483648) - 2147483648"
    by (simp only: mod_eq_dvd_iff)
  then have dv: "4294967296 dvd a - b"
    by simp
  from assms(3) have "a - b \<noteq> 0"
    by simp
  from dvd_imp_le_int [OF this dv] have "4294967296 \<le> \<bar>a - b\<bar>"
    by simp
  moreover have "\<bar>a - b\<bar> < 4294967296"
    using assms(1,2) unfolding int32_def by linarith
  ultimately show False
    by simp
qed

lemma bin_val_shift: "bin_val (m, k + e) = bin_val (m, k) * 2 powi e"
  by (simp add: bin_val_def powi_add)

lemma int_to_float_val: "bin_val (int_to_float n) = rnd 24 (real_of_int n)"
  using round_quot_val [of 1 24 n] by (simp add: int_to_float_def)

lemma double_mul_val: "bin_val (double_mul f c) = rnd 53 (bin_val f * real_of_int c)"
proof -
  obtain m k where r: "round_quot 53 (fst f * c) 1 = (m, k)"
    by (cases "round_quot 53 (fst f * c) 1")
  have "bin_val (double_mul f c) = bin_val (m, k) * 2 powi (snd f)"
    by (simp add: double_mul_def r bin_val_shift)
  also have "bin_val (m, k) = rnd 53 (real_of_int (fst f * c))"
    using round_quot_val [of 1 53 "fst f * c"] by (simp add: r)
  also have "rnd 53 (real_of_int (fst f * c)) * 2 powi (snd f) =
      rnd 53 (real_of_int (fst f * c) * 2 powi (snd f))"
    by (simp only: rnd_scale)
  also have "real_of_int (fst f * c) * 2 powi (snd f) = bin_val f * real_of_int c"
    by (simp add: bin_val_def)
  finally show ?thesis .
qed

lemma double_div_val:
  assumes "d \<noteq> 0"
  shows "bin_val (double_div f d) = rnd 53 (bin_val f / real_of_int d)"
proof -
  obtain m k where r: "round_quot 53 (fst f) d = (m, k)"
    by (cases "round_quot 53 (fst f) d")
  have "bin_val (double_div f d) = bin_val (m, k) * 2 powi (snd f)"
    by (simp add: double_div_def r bin_val_shift)
  also have "bin_val (m, k) = rnd 53 (real_of_int (fst f) / real_of_int d)"
    using round_quot_val [OF assms, of 53 "fst f"] by (simp add: r)
  also have "rnd 53 (real_of_int (fst f) / real_of_int d) * 2 powi (snd f) =
      rnd 53 (real_of_int (fst f) / real_of_int d * 2 powi (snd f))"
    by (simp only: rnd_scale)
  also have "real_of_int (fst f) / real_of_int d * 2 powi (snd f) = bin_val f / real_of_int d"
    by (simp add: bin_val_def)
  finally show ?thesis .
qed

lemma double_to_float_val: "bin_val (double_to_float f) = rnd 24 (bin_val f)"
proof -
  obtain m k where r: "round_quot 24 (fst f) 1 = (m, k)"
    by (cases "round_quot 24 (fst f) 1")
  have "bin_val (double_to_float f) = bin_val (m, k) * 2 powi (snd f)"
    by (simp add: double_to_float_def r bin_val_shift)
  also have "bin_val (m, k) = rnd 24 (real_of_int (fst f))"
    using round_quot_val [of 1 24 "fst f"] by (simp add: r)
  also have "rnd 24 (real_of_int (fst f)) * 2 powi (snd f) =
      rnd 24 (real_of_int (fst f) * 2 powi (snd f))"
    by (simp only: rnd_scale)
  finally show ?thesis by (simp add: bin_val_def)
qed

lemma linear_map_val:
  assumes "d \<noteq> 0"
  shows "bin_val (double_to_float (double_div (double_mul (int_to_float n) 100) d)) = float_pct n d"
  by (simp add: double_to_float_val double_div_val [OF assms] double_mul_val int_to_float_val
      float_pct_def)

lemma mapMoisture_float:
  assumes "0 < raw" "adc_wet cfg \<noteq> adc_dry cfg"
    and "int32 (raw - adc_dry cfg)" "int32 (adc_wet cfg - adc_dry cfg)"
  shows "mapMoisture cfg raw =
    max 0 (min 100 (float_pct (raw - adc_dry cfg) (adc_wet cfg - adc_dry cfg)))"
proof -
  have d: "adc_wet cfg - adc_dry cfg \<noteq> 0" using assms(2) by simp
  show ?thesis
    using assms(1,2)
    by (auto simp add: mapMoisture_def Let_def sub32_id [OF assms(3)] sub32_id [OF assms(4)]
        linear_map_val [OF d] max_def min_def)
qed

lemma mapMoisture_range:
  "0 < raw \<Longrightarrow> adc_wet cfg \<noteq> adc_dry cfg \<Longrightarrow>
   0 \<le> mapMoisture cfg raw \<and> mapMoisture cfg raw \<le> 100"
  by (auto simp add: mapMoisture_def Let_def)

lemma mapMoisture_sentinel:
  "raw \<le> 0 \<or> adc_wet cfg = adc_dry cfg \<Longrightarrow> mapMoisture cfg raw = - 999"
  by (auto simp add: mapMoisture_def Let_def)

text \<open>
  The float result follows the order of the numerators, is 0 for the numerator 0, and
  is 100 where the numerator is the divisor and has at most 24 bits.
\<close>

lemma float_pct_mono:
  assumes "0 < d" "n \<le> n'"
  shows "float_pct n d \<le> float_pct n' d"
proof -
  have "rnd 24 (real_of_int n) \<le> rnd 24 (real_of_int n')"
    using assms(2) by (intro rnd_mono) simp_all
  then have "rnd 53 (rnd 24 (real_of_int n) * 100) \<le> rnd 53 (rnd 24 (real_of_int n') * 100)"
    by (intro rnd_mono) simp_all
  then have "rnd 53 (rnd 24 (real_of_int n) * 100) / real_of_int d
      \<le> rnd 53 (rnd 24 (real_of_int n') * 100) / real_of_int d"
    using assms(1) by (simp add: divide_right_mono)
  then show ?thesis
    unfolding float_pct_def by (intro rnd_mono) simp_all
qed

lemma float_pct_anti:
  assumes "d < 0" "n \<le> n'"
  shows "float_pct n' d \<le> float_pct n d"
proof -
  have "rnd 24 (real_of_int n) \<le> rnd 24 (real_of_int n')"
    using assms(2) by (intro rnd_mono) simp_all
  then have "rnd 53 (rnd 24 (real_of_int n) * 100) \<le> rnd 53 (rnd 24 (real_of_int n') * 100)"
    by (intro rnd_mono) simp_all
  then have "rnd 53 (rnd 24 (real_of_int n') * 100) / real_of_int d
      \<le> rnd 53 (rnd 24 (real_of_int n) * 100) / real_of_int d"
    using assms(1) by (simp add: divide_right_mono_neg)
  then show ?thesis
    unfolding float_pct_def by (intro rnd_mono) simp_all
qed

lemma float_pct_zero [simp]: "float_pct 0 d = 0"
  by (simp add: float_pct_def)

lemma float_pct_same:
  assumes "d \<noteq> 0" "\<bar>d\<bar> \<le> 2 ^ 24"
  shows "float_pct d d = 100"
proof -
  have a: "rnd 24 (real_of_int d) = real_of_int d"
    using assms(2) by (intro rnd_int_exact) simp_all
  have "\<bar>d * 100\<bar> \<le> 2 ^ 24 * 100"
    using assms(2) by (simp add: abs_mult)
  also have "\<dots> \<le> (2::int) ^ 53" by simp
  finally have "rnd 53 (real_of_int (d * 100)) = real_of_int (d * 100)"
    by (intro rnd_int_exact) simp_all
  then have b: "rnd 53 (real_of_int d * 100) = real_of_int d * 100"
    by simp
  have c: "rnd 53 (real_of_int (100::int)) = real_of_int 100"
    by (intro rnd_int_exact) simp_all
  have e: "rnd 24 (real_of_int (100::int)) = real_of_int 100"
    by (intro rnd_int_exact) simp_all
  have q: "real_of_int d * 100 / real_of_int d = 100"
    using assms(1) by simp
  show ?thesis
    unfolding float_pct_def a b q using c e by simp
qed







text \<open>
  On positive raw values whose differences fit an \<open>int\<close> the mapping follows
  the sign of \<open>adc_wet - adc_dry\<close>; its values at the two calibration points.
\<close>

lemma mapMoisture_increasing:
  assumes "adc_dry cfg < adc_wet cfg" "0 < r1" "r1 \<le> r2"
    and "int32 (r1 - adc_dry cfg)" "int32 (r2 - adc_dry cfg)" "int32 (adc_wet cfg - adc_dry cfg)"
  shows "mapMoisture cfg r1 \<le> mapMoisture cfg r2"
proof -
  have ne: "adc_wet cfg \<noteq> adc_dry cfg" and r2: "0 < r2"
    using assms by simp_all
  have "float_pct (r1 - adc_dry cfg) (adc_wet cfg - adc_dry cfg)
      \<le> float_pct (r2 - adc_dry cfg) (adc_wet cfg - adc_dry cfg)"
    using assms(1,3) by (intro float_pct_mono) simp_all
  then show ?thesis
    unfolding mapMoisture_float [OF assms(2) ne assms(4,6)] mapMoisture_float [OF r2 ne assms(5,6)]
    by (simp add: max_def min_def)
qed

lemma mapMoisture_decreasing:
  assumes "adc_wet cfg < adc_dry cfg" "0 < r1" "r1 \<le> r2"
    and "int32 (r1 - adc_dry cfg)" "int32 (r2 - adc_dry cfg)" "int32 (adc_wet cfg - adc_dry cfg)"
  shows "mapMoisture cfg r2 \<le> mapMoisture cfg r1"
proof -
  have ne: "adc_wet cfg \<noteq> adc_dry cfg" and r2: "0 < r2"
    using assms by simp_all
  have "float_pct (r2 - adc_dry cfg) (adc_wet cfg - adc_dry cfg)
      \<le> float_pct (r1 - adc_dry cfg) (adc_wet cfg - adc_dry cfg)"
    using assms(1,3) by (intro float_pct_anti) simp_all
  then show ?thesis
    unfolding mapMoisture_float [OF assms(2) ne assms(4,6)] mapMoisture_float [OF r2 ne assms(5,6)]
    by (simp add: max_def min_def)
qed

lemma mapMoisture_at_dry:
  assumes "0 < adc_dry cfg" "adc_wet cfg \<noteq> adc_dry cfg"
  shows "mapMoisture cfg (adc_dry cfg) = 0"
  using assms
  by (simp add: mapMoisture_def sub32_def wrap32_def int_to_float_def double_mul_def
      double_div_def double_to_float_def round_quot_def bin_val_def)

lemma mapMoisture_at_wet:
  assumes "0 < adc_wet cfg" "adc_wet cfg < adc_dry cfg" "adc_dry cfg - adc_wet cfg \<le> 2 ^ 24"
  shows "mapMoisture cfg (adc_wet cfg) = 100"
proof -
  have ne: "adc_wet cfg \<noteq> adc_dry cfg" and nz: "adc_wet cfg - adc_dry cfg \<noteq> 0"
    using assms(2) by simp_all
  have fits: "int32 (adc_wet cfg - adc_dry cfg)"
    using assms(2,3) by (simp add: int32_def)
  have small: "\<bar>adc_wet cfg - adc_dry cfg\<bar> \<le> 2 ^ 24"
    using assms(2,3) by simp
  show ?thesis
    unfolding mapMoisture_float [OF assms(1) ne fits fits] float_pct_same [OF nz small]
    by simp
qed



text \<open>The sum of ten 16-bit reads stays inside the range of \<open>long\<close>.\<close>

lemma sample_sum_fits:
  fixes rd :: "nat \<Rightarrow> 16 word"
  shows "int32 (\<Sum>k = 0..<10. uint (rd k))"
proof -
  have upper: "(\<Sum>k = 0..<10. uint (rd k)) \<le> (\<Sum>k = 0..<(10::nat). 65535)"
  proof (rule sum_mono)
    fix k
    have "uint (rd k) < 2 ^ 16"
      using uint_bounded [of "rd k"] by simp
    then show "uint (rd k) \<le> 65535" by simp
  qed
  have lower: "0 \<le> (\<Sum>k = 0..<10. uint (rd k))"
    by (rule sum_nonneg) simp
  from upper lower show ?thesis
    by (simp add: int32_def)
qed


text \<open>The definitions that evaluate \<open>mapMoisture\<close> on concrete numbers.\<close>

lemmas mapMoisture_eval =
  mapMoisture_def sub32_def wrap32_def int_to_float_def double_mul_def double_div_def
  double_to_float_def round_quot_def ilog2_quot_def round_half_even_def bin_val_def Let_def
  compute_bitlen




text \<open>
  C6. For a calibration with \<open>adc_wet \<noteq> adc_dry\<close> and a raw value \<open>> 0\<close> the result
  of \<open>mapMoisture\<close> lies in \<open>[0, 100]\<close>; for a raw value \<open>\<le> 0\<close> or
  \<open>adc_wet = adc_dry\<close> it is the sentinel \<open>-999\<close>. On positive raw values, as long
  as the differences \<open>raw - adc_dry\<close> and \<open>adc_wet - adc_dry\<close> fit an \<open>int\<close>,
  the mapping is monotonic: it does not decrease when \<open>adc_dry < adc_wet\<close> and does
  not increase when \<open>adc_wet < adc_dry\<close>.
\<close>

theorem mapMoisture_monotone_clamped:
  "(0 < raw \<and> adc_wet cfg \<noteq> adc_dry cfg \<longrightarrow>
      0 \<le> mapMoisture cfg raw \<and> mapMoisture cfg raw \<le> 100) \<and>
   (raw \<le> 0 \<or> adc_wet cfg = adc_dry cfg \<longrightarrow> mapMoisture cfg raw = - 999) \<and>
   (adc_dry cfg < adc_wet cfg \<and> 0 < r1 \<and> r1 \<le> r2 \<and> int32 (r1 - adc_dry cfg) \<and>
    int32 (r2 - adc_dry cfg) \<and> int32 (adc_wet cfg - adc_dry cfg) \<longrightarrow>
      mapMoisture cfg r1 \<le> mapMoisture cfg r2) \<and>
   (adc_wet cfg < adc_dry cfg \<and> 0 < r1 \<and> r1 \<le> r2 \<and> int32 (r1 - adc_dry cfg) \<and>
    int32 (r2 - adc_dry cfg) \<and> int32 (adc_wet cfg - adc_dry cfg) \<longrightarrow>
      mapMoisture cfg r2 \<le> mapMoisture cfg r1)"
  using mapMoisture_range [of raw cfg] mapMoisture_sentinel [of raw cfg]
    mapMoisture_increasing [of cfg r1 r2] mapMoisture_decreasing [of cfg r1 r2]
  by blast

text \<open>
  At the default calibration (raw values 2000 and 3000, and the raw value 0), and at the
  calibration with wet and dry exchanged.
\<close>

theorem mapMoisture_monotone_clamped_witness:
  "0 \<le> mapMoisture sysConfig_default 2000 \<and> mapMoisture sysConfig_default 2000 \<le> 100 \<and>
   mapMoisture sysConfig_default 0 = - 999 \<and>
   mapMoisture (sysConfig_default\<lparr>adc_wet := 4095, adc_dry := 1500\<rparr>) 2000
     \<le> mapMoisture (sysConfig_default\<lparr>adc_wet := 4095, adc_dry := 1500\<rparr>) 3000 \<and>
   mapMoisture sysConfig_default 3000 \<le> mapMoisture sysConfig_default 2000"
  using mapMoisture_monotone_clamped [of 2000 sysConfig_default 2000 3000]
    mapMoisture_monotone_clamped [of 0 sysConfig_default 2000 3000]
    mapMoisture_monotone_clamped [of 2000 "sysConfig_default\<lparr>adc_wet := 4095, adc_dry := 1500\<rparr>"
      2000 3000]
  by (simp add: sysConfig_default_def int32_def)

text \<open>
  At the default calibration the raw value 0 maps to \<open>-999\<close>, outside \<open>[0, 100]\<close>,
  and the values at 0, 1 and 4095 are \<open>-999\<close>, 100 and 0: up, then down. With
  \<open>adc_dry = -2147480000\<close> below \<open>adc_wet = 1500\<close> the difference
  \<open>4095 - adc_dry\<close> wraps around, and the value at 4095 is below the value at 1.
\<close>

theorem mapMoisture_monotone_clamped_counterexample:
  "mapMoisture sysConfig_default 0 < 0 \<and>
   mapMoisture sysConfig_default 0 < mapMoisture sysConfig_default 1 \<and>
   mapMoisture sysConfig_default 4095 < mapMoisture sysConfig_default 1 \<and>
   adc_dry (sysConfig_default\<lparr>adc_dry := - 2147480000\<rparr>)
     < adc_wet (sysConfig_default\<lparr>adc_dry := - 2147480000\<rparr>) \<and>
   mapMoisture (sysConfig_default\<lparr>adc_dry := - 2147480000\<rparr>) 4095
     < mapMoisture (sysConfig_default\<lparr>adc_dry := - 2147480000\<rparr>) 1"
proof -
  have a: "mapMoisture sysConfig_default 0 = - 999"
    by (simp add: mapMoisture_def)
  have b: "mapMoisture sysConfig_default 1 = 100"
    by (simp add: mapMoisture_eval sysConfig_default_def)
  have c: "mapMoisture sysConfig_default 4095 = 0"
    by (simp add: mapMoisture_eval sysConfig_default_def)
  have d: "mapMoisture (sysConfig_default\<lparr>adc_dry := - 2147480000\<rparr>) 4095 = 0"
    by (simp add: mapMoisture_eval sysConfig_default_def)
  have e: "mapMoisture (sysConfig_default\<lparr>adc_dry := - 2147480000\<rparr>) 1 = 13107191 / 131072"
    by (simp add: mapMoisture_eval sysConfig_default_def)
  show ?thesis
    unfolding a b c d e by (simp add: sysConfig_default_def)
qed

text \<open>
  C10. For every calibration with \<open>adc_wet < adc_dry\<close> the mapping is antitone on
  positive raw values whose differences from \<open>adc_dry\<close> fit an \<open>int\<close>:
  \<open>0 < r1 < r2\<close> gives \<open>mapMoisture r1 \<ge> mapMoisture r2\<close>. Its value at
  \<open>adc_dry\<close> is 0 when \<open>adc_dry > 0\<close>, and its value at \<open>adc_wet\<close> is 100 when
  \<open>adc_wet > 0\<close> and \<open>adc_dry - adc_wet \<le> 2 ^ 24\<close>, the range in which the
  conversion to \<open>float\<close> is exact.
\<close>

theorem mapMoisture_antitone:
  "adc_wet cfg < adc_dry cfg \<longrightarrow>
     (0 < r1 \<and> r1 < r2 \<and> int32 (r1 - adc_dry cfg) \<and> int32 (r2 - adc_dry cfg) \<and>
      int32 (adc_wet cfg - adc_dry cfg) \<longrightarrow> mapMoisture cfg r2 \<le> mapMoisture cfg r1) \<and>
     (0 < adc_dry cfg \<longrightarrow> mapMoisture cfg (adc_dry cfg) = 0) \<and>
     (0 < adc_wet cfg \<and> adc_dry cfg - adc_wet cfg \<le> 2 ^ 24 \<longrightarrow>
        mapMoisture cfg (adc_wet cfg) = 100)"
proof (intro impI conjI)
  assume "adc_wet cfg < adc_dry cfg"
    and "0 < r1 \<and> r1 < r2 \<and> int32 (r1 - adc_dry cfg) \<and> int32 (r2 - adc_dry cfg) \<and>
      int32 (adc_wet cfg - adc_dry cfg)"
  then show "mapMoisture cfg r2 \<le> mapMoisture cfg r1"
    using mapMoisture_decreasing [of cfg r1 r2] by simp
next
  assume "adc_wet cfg < adc_dry cfg" and "0 < adc_dry cfg"
  then show "mapMoisture cfg (adc_dry cfg) = 0"
    by (simp add: mapMoisture_at_dry)
next
  assume "adc_wet cfg < adc_dry cfg" and "0 < adc_wet cfg \<and> adc_dry cfg - adc_wet cfg \<le> 2 ^ 24"
  then show "mapMoisture cfg (adc_wet cfg) = 100"
    by (simp add: mapMoisture_at_wet)
qed

text \<open>The default calibration, 1500 wet and 4095 dry.\<close>

theorem mapMoisture_antitone_witness:
  "adc_wet sysConfig_default < adc_dry sysConfig_default \<and>
   mapMoisture sysConfig_default 3000 \<le> mapMoisture sysConfig_default 2000 \<and>
   mapMoisture sysConfig_default 4095 = 0 \<and>
   mapMoisture sysConfig_default 1500 = 100"
  using mapMoisture_antitone [of sysConfig_default 2000 3000]
  by (simp add: sysConfig_default_def int32_def)

text \<open>
  With \<open>adc_wet = 0\<close> the guard on \<open>raw \<le> 0\<close> answers before the map: the value
  at \<open>adc_wet\<close> is \<open>-999\<close>. With \<open>adc_wet = 1\<close> and \<open>adc_dry = 16777218\<close>
  the difference \<open>-16777217\<close> is rounded by the conversion to \<open>float\<close>, and the
  value at \<open>adc_wet\<close> is \<open>13107199 / 131072\<close>, below 100. With
  \<open>adc_wet = -2147483000\<close> and \<open>adc_dry = -2147480000\<close> the difference
  \<open>4095 - adc_dry\<close> wraps around, and the value at 1 is below the value at 4095.
\<close>

theorem mapMoisture_antitone_counterexample:
  "adc_wet (sysConfig_default\<lparr>adc_wet := 0\<rparr>) < adc_dry (sysConfig_default\<lparr>adc_wet := 0\<rparr>) \<and>
   mapMoisture (sysConfig_default\<lparr>adc_wet := 0\<rparr>) (adc_wet (sysConfig_default\<lparr>adc_wet := 0\<rparr>)) = - 999 \<and>
   mapMoisture (sysConfig_default\<lparr>adc_wet := 1, adc_dry := 16777218\<rparr>) 1 = 13107199 / 131072 \<and>
   adc_wet (sysConfig_default\<lparr>adc_wet := - 2147483000, adc_dry := - 2147480000\<rparr>)
     < adc_dry (sysConfig_default\<lparr>adc_wet := - 2147483000, adc_dry := - 2147480000\<rparr>) \<and>
   mapMoisture (sysConfig_default\<lparr>adc_wet := - 2147483000, adc_dry := - 2147480000\<rparr>) 1 = 0 \<and>
   mapMoisture (sysConfig_default\<lparr>adc_wet := - 2147483000, adc_dry := - 2147480000\<rparr>) 4095 = 100"
proof -
  have a: "mapMoisture (sysConfig_default\<lparr>adc_wet := 0\<rparr>) (adc_wet (sysConfig_default\<lparr>adc_wet := 0\<rparr>)) = - 999"
    by (simp add: mapMoisture_def)
  have b: "mapMoisture (sysConfig_default\<lparr>adc_wet := 1, adc_dry := 16777218\<rparr>) 1 = 13107199 / 131072"
    by (simp add: mapMoisture_eval sysConfig_default_def)
  have c: "mapMoisture (sysConfig_default\<lparr>adc_wet := - 2147483000, adc_dry := - 2147480000\<rparr>) 1 = 0"
    by (simp add: mapMoisture_eval sysConfig_default_def)
  have d: "mapMoisture (sysConfig_default\<lparr>adc_wet := - 2147483000, adc_dry := - 2147480000\<rparr>) 4095 = 100"
    by (simp add: mapMoisture_eval sysConfig_default_def)
  from a b c d show ?thesis
    by (simp add: sysConfig_default_def)
qed

subsection \<open>Firebase task: the pulled configuration\<close>

lemma Config_temp_high_changed: "v \<noteq> temp_high cfg \<Longrightarrow> cfg\<lparr>temp_high := v\<rparr> \<noteq> cfg"
  by (auto dest: arg_cong [where f = temp_high])

lemma Config_temp_low_changed: "v \<noteq> temp_low cfg \<Longrightarrow> cfg\<lparr>temp_low := v\<rparr> \<noteq> cfg"
  by (auto dest: arg_cong [where f = temp_low])

lemma Config_both_changed:
  "v \<noteq> temp_high cfg \<Longrightarrow> cfg\<lparr>temp_high := v, temp_low := w\<rparr> \<noteq> cfg"
  by (auto dest: arg_cong [where f = temp_high])

text \<open>
  What the block does guarantee: \<open>saveConfig\<close> is called once if the configuration
  changed and not at all otherwise, and only \<open>temp_high\<close> and \<open>temp_low\<close> can
  change.
\<close>

lemma read_config_saves:
  "snd (read_config j cfg) =
     (if fst (read_config j cfg) = cfg then [] else [SaveConfig (fst (read_config j cfg))])"
  by (simp add: read_config_def Config_temp_high_changed Config_temp_low_changed
      Config_both_changed split: option.splits)

lemma read_config_identical:
  "map_of j ''temp_high'' = Some (temp_high cfg) \<Longrightarrow>
   map_of j ''temp_low'' = Some (temp_low cfg) \<Longrightarrow>
   read_config j cfg = (cfg, [])"
  by (simp add: read_config_def)

lemma read_config_other_fields:
  "hum_low (fst (read_config j cfg)) = hum_low cfg"
  "hum_high (fst (read_config j cfg)) = hum_high cfg"
  "moisture_dry (fst (read_config j cfg)) = moisture_dry cfg"
  "moisture_target (fst (read_config j cfg)) = moisture_target cfg"
  "adc_wet (fst (read_config j cfg)) = adc_wet cfg"
  "adc_dry (fst (read_config j cfg)) = adc_dry cfg"
  by (simp_all add: read_config_def split: option.splits)

text \<open>
  C7. A pulled configuration whose \<open>hum_low\<close> differs from the current one is not
  applied. In the synced state, with the push succeeding and the remote object holding
  \<open>hum_low = 30\<close> against the current 45, the pass leaves the configuration as it
  was and does not call \<open>saveConfig\<close>.
\<close>

theorem remote_humidity_threshold_ignored:
  "firebaseTask \<lparr>millis_check = 60000, millis_stamp = 60000, handshake_ready = True,
       sync_ready = True, push_result = None, pull_result = PullJson [(''hum_low'', 30)]\<rparr>
     sysState_boot (\<lparr>firebaseReady = True, lastAuthAttempt = 31000\<rparr>, sysConfig_default) =
   ((\<lparr>firebaseReady = True, lastAuthAttempt = 31000\<rparr>, sysConfig_default),
    [SetJSON sysState_boot, GetJSON, Delay 5000])"
  by (simp add: firebaseTask_def read_config_def)

subsection \<open>Firebase task: failures of the push and of the pull\<close>

lemma startsWith_iff: "startsWith s s2 \<longleftrightarrow> (\<exists>post. s = s2 @ post)"
  by (induction s s2 rule: startsWith.induct) auto

lemma strstr_found_iff: "0 \<le> strstr s s2 i \<longleftrightarrow> (\<exists>pre post. s = pre @ s2 @ post)"
proof (induction s arbitrary: i)
  case Nil
  then show ?case by simp
next
  case (Cons x xs)
  have split: "(\<exists>pre post. x # xs = pre @ s2 @ post) \<longleftrightarrow>
      startsWith (x # xs) s2 \<or> (\<exists>pre post. xs = pre @ s2 @ post)"
  proof
    assume "\<exists>pre post. x # xs = pre @ s2 @ post"
    then obtain pre post where eq: "x # xs = pre @ s2 @ post" by blast
    show "startsWith (x # xs) s2 \<or> (\<exists>pre post. xs = pre @ s2 @ post)"
    proof (cases pre)
      case Nil
      with eq show ?thesis by (auto simp add: startsWith_iff)
    next
      case (Cons p ps)
      with eq have "xs = ps @ s2 @ post" by simp
      then show ?thesis by blast
    qed
  next
    assume "startsWith (x # xs) s2 \<or> (\<exists>pre post. xs = pre @ s2 @ post)"
    then show "\<exists>pre post. x # xs = pre @ s2 @ post"
    proof
      assume "startsWith (x # xs) s2"
      then obtain post where "x # xs = [] @ s2 @ post" by (auto simp add: startsWith_iff)
      then show ?thesis by blast
    next
      assume "\<exists>pre post. xs = pre @ s2 @ post"
      then obtain pre post where "xs = pre @ s2 @ post" by blast
      then have "x # xs = (x # pre) @ s2 @ post" by simp
      then show ?thesis by blast
    qed
  qed
  show ?case
  proof (cases "startsWith (x # xs) s2")
    case True
    then show ?thesis using split by simp
  next
    case False
    then show ?thesis using split Cons.IH [of "Suc i"] by simp
  qed
qed

text \<open>For a non-empty argument, \<open>indexOf\<close> is not negative exactly on the strings that contain it.\<close>

lemma indexOf_found_iff:
  "s2 \<noteq> [] \<Longrightarrow> 0 \<le> indexOf s s2 \<longleftrightarrow> (\<exists>pre post. s = pre @ s2 @ post)"
  by (cases s) (simp_all add: indexOf_def strstr_found_iff del: strstr.simps)

text \<open>
  C8. In the synced state with the client ready: a push that fails with an error text
  containing \<open>auth\<close> or \<open>token\<close> leaves \<open>firebaseReady\<close> false; the session after
  the pass is the same whether the pull failed, with any error text, or ended in any
  other way; and when the push succeeds and the pull fails the pass changes nothing and
  its only effects are the two calls, the log line of the failure and the delay.
\<close>

theorem push_auth_failure_disconnects:
  "firebaseReady ss \<and> sync_ready net \<longrightarrow>
     (push_result net = Some (pre @ ''auth'' @ post) \<or> push_result net = Some (pre @ ''token'' @ post)
        \<longrightarrow> \<not> firebaseReady (fst (fst (firebaseTask net st (ss, cfg))))) \<and>
     fst (fst (firebaseTask (net\<lparr>pull_result := PullFailed e\<rparr>) st (ss, cfg))) =
       fst (fst (firebaseTask (net\<lparr>pull_result := p\<rparr>) st (ss, cfg))) \<and>
     (push_result net = None \<longrightarrow>
        firebaseTask (net\<lparr>pull_result := PullFailed e\<rparr>) st (ss, cfg) =
          ((ss, cfg), [SetJSON st, GetJSON, Log (''Config read failed: '' @ e), Delay 5000]))"
proof (intro impI conjI)
  assume sy: "firebaseReady ss \<and> sync_ready net"
  assume "push_result net = Some (pre @ ''auth'' @ post) \<or> push_result net = Some (pre @ ''token'' @ post)"
  then obtain err where err: "push_result net = Some err"
    and found: "0 \<le> indexOf err ''auth'' \<or> 0 \<le> indexOf err ''token''"
    by (elim disjE) (simp_all add: indexOf_found_iff, blast+)
  show "\<not> firebaseReady (fst (fst (firebaseTask net st (ss, cfg))))"
    using sy err found
    by (simp add: firebaseTask_def split: prod.splits pulled.splits)
next
  assume sy: "firebaseReady ss \<and> sync_ready net"
  show "fst (fst (firebaseTask (net\<lparr>pull_result := PullFailed e\<rparr>) st (ss, cfg))) =
       fst (fst (firebaseTask (net\<lparr>pull_result := p\<rparr>) st (ss, cfg)))"
    using sy by (simp add: firebaseTask_def split: prod.splits pulled.splits option.splits)
next
  assume sy: "firebaseReady ss \<and> sync_ready net" and "push_result net = None"
  then show "firebaseTask (net\<lparr>pull_result := PullFailed e\<rparr>) st (ss, cfg) =
          ((ss, cfg), [SetJSON st, GetJSON, Log (''Config read failed: '' @ e), Delay 5000])"
    by (simp add: firebaseTask_def)
qed

text \<open>
  A push failing with \<open>invalid token\<close>; and a pull failing with an error text that
  itself names \<open>auth\<close> and \<open>token\<close>, after a push that succeeded.
\<close>

theorem push_auth_failure_disconnects_witness:
  "\<not> firebaseReady (fst (fst (firebaseTask
       \<lparr>millis_check = 60000, millis_stamp = 60000, handshake_ready = True, sync_ready = True,
         push_result = Some ''invalid token'', pull_result = PullNull\<rparr>
       sysState_boot (\<lparr>firebaseReady = True, lastAuthAttempt = 31000\<rparr>, sysConfig_default)))) \<and>
   firebaseTask
       \<lparr>millis_check = 60000, millis_stamp = 60000, handshake_ready = True, sync_ready = True,
         push_result = None, pull_result = PullFailed ''auth token expired''\<rparr>
       sysState_boot (\<lparr>firebaseReady = True, lastAuthAttempt = 31000\<rparr>, sysConfig_default) =
     ((\<lparr>firebaseReady = True, lastAuthAttempt = 31000\<rparr>, sysConfig_default),
      [SetJSON sysState_boot, GetJSON, Log ''Config read failed: auth token expired'', Delay 5000])"
  using push_auth_failure_disconnects [where
      ss = "\<lparr>firebaseReady = True, lastAuthAttempt = 31000\<rparr>" and
      net = "\<lparr>millis_check = 60000, millis_stamp = 60000, handshake_ready = True, sync_ready = True,
         push_result = Some ''invalid token'', pull_result = PullNull\<rparr>" and
      pre = "''invalid ''" and post = "[]" and st = sysState_boot and cfg = sysConfig_default and
      e = "''auth token expired''" and p = PullNull]
    push_auth_failure_disconnects [where
      ss = "\<lparr>firebaseReady = True, lastAuthAttempt = 31000\<rparr>" and
      net = "\<lparr>millis_check = 60000, millis_stamp = 60000, handshake_ready = True, sync_ready = True,
         push_result = None, pull_result = PullNull\<rparr>" and
      pre = "''invalid ''" and post = "[]" and st = sysState_boot and cfg = sysConfig_default and
      e = "''auth token expired''" and p = PullNull]
  by simp

subsection \<open>Firebase task: the retry interval\<close>

text \<open>
  The unsigned difference of two readings of the clock is the time between them, as
  long as that is less than \<open>2 ^ 32\<close> ms, whether or not the clock wrapped in between.
\<close>

lemma elapsed_gt_iff:
  assumes "d < 2 ^ 32"
  shows "authRetryInterval < (t0 + word_of_nat d) - t0 \<longleftrightarrow> 30000 < d"
proof -
  have "unat (word_of_nat d :: 32 word) = d"
    using assms by (simp add: unat_of_nat)
  then show ?thesis
    by (simp add: authRetryInterval_def word_less_nat_alt)
qed

text \<open>
  A pass calls \<open>Firebase.begin\<close> exactly in the disconnected state with the interval
  elapsed; such a pass stores the clock in \<open>lastAuthAttempt\<close> whether the handshake
  succeeds or fails, and no other pass touches \<open>lastAuthAttempt\<close>.
\<close>

lemma read_config_no_begin: "FirebaseBegin \<notin> set (snd (read_config j cfg))"
  by (simp add: read_config_saves)

lemma firebaseTask_begin_iff:
  "FirebaseBegin \<in> set (snd (firebaseTask net st (ss, cfg))) \<longleftrightarrow>
     \<not> firebaseReady ss \<and> authRetryInterval < millis_check net - lastAuthAttempt ss"
proof (cases "firebaseReady ss")
  case False
  then show ?thesis
    by (simp add: firebaseTask_def Let_def)
next
  case True
  show ?thesis
  proof (cases "sync_ready net")
    case False
    with True show ?thesis by (simp add: firebaseTask_def)
  next
    case sync: True
    with True show ?thesis
      by (cases "push_result net"; cases "pull_result net")
        (simp_all add: firebaseTask_def split_beta read_config_no_begin)
  qed
qed

lemma firebaseTask_stamp:
  "lastAuthAttempt (fst (fst (firebaseTask net st (ss, cfg)))) =
     (if FirebaseBegin \<in> set (snd (firebaseTask net st (ss, cfg)))
      then millis_stamp net else lastAuthAttempt ss)"
proof (cases "firebaseReady ss")
  case False
  then show ?thesis
    unfolding firebaseTask_begin_iff by (simp add: firebaseTask_def Let_def)
next
  case True
  then show ?thesis
    unfolding firebaseTask_begin_iff
    by (cases "push_result net"; cases "pull_result net")
      (simp_all add: firebaseTask_def split_beta)
qed

lemma firebase_passes_keep:
  "FirebaseBegin \<notin> set (snd (firebase_passes mid sc)) \<Longrightarrow>
   lastAuthAttempt (fst (fst (firebase_passes mid sc))) = lastAuthAttempt (fst sc)"
proof (induction mid arbitrary: sc)
  case Nil
  then show ?case by simp
next
  case (Cons pass mid)
  obtain net st where pass: "pass = (net, st)" by (cases pass)
  obtain ss cfg where sc: "sc = (ss, cfg)" by (cases sc)
  let ?r = "firebaseTask net st (ss, cfg)"
  from Cons.prems have no1: "FirebaseBegin \<notin> set (snd ?r)"
    and no2: "FirebaseBegin \<notin> set (snd (firebase_passes mid (fst ?r)))"
    by (simp_all add: pass sc split: prod.splits)
  have "lastAuthAttempt (fst (fst (firebase_passes (pass # mid) sc))) =
      lastAuthAttempt (fst (fst (firebase_passes mid (fst ?r))))"
    by (simp add: pass sc split: prod.splits)
  also have "\<dots> = lastAuthAttempt (fst (fst ?r))"
    using no2 by (rule Cons.IH)
  also have "\<dots> = lastAuthAttempt ss"
    using no1 by (simp add: firebaseTask_stamp)
  finally show ?case by (simp add: sc)
qed

text \<open>
  C9. Handshakes are at most one per 30 s. Let a pass perform a handshake, whatever its
  outcome, and let any passes without a handshake follow (synced passes, the loss of the
  session, passes that only wait). If the next pass reads the clock \<open>d\<close> ms after
  the handshake stored it, \<open>d\<close> within the range of the 32-bit clock, then for
  \<open>d \<le> 30000\<close> it makes no handshake, and in the disconnected state it only
  waits; for \<open>d > 30000\<close> in the disconnected state it performs the handshake.
\<close>

theorem handshake_rate_limited:
  assumes "FirebaseBegin \<in> set (snd (firebaseTask net1 st1 sc))"
    and "FirebaseBegin \<notin> set (snd (firebase_passes mid (fst (firebaseTask net1 st1 sc))))"
    and "sc' = fst (firebase_passes mid (fst (firebaseTask net1 st1 sc)))"
    and "millis_check net2 = millis_stamp net1 + word_of_nat d"
    and "d < 2 ^ 32"
  shows "(d \<le> 30000 \<longrightarrow> FirebaseBegin \<notin> set (snd (firebaseTask net2 st2 sc'))) \<and>
         (d \<le> 30000 \<and> \<not> firebaseReady (fst sc') \<longrightarrow>
            firebaseTask net2 st2 sc' = (sc', [Delay 1000])) \<and>
         (30000 < d \<and> \<not> firebaseReady (fst sc') \<longrightarrow>
            FirebaseBegin \<in> set (snd (firebaseTask net2 st2 sc')))"
proof -
  obtain ss cfg where sc: "sc = (ss, cfg)" by (cases sc)
  obtain ss' cfg' where sc': "sc' = (ss', cfg')" by (cases sc')
  have "lastAuthAttempt (fst sc') = lastAuthAttempt (fst (fst (firebaseTask net1 st1 sc)))"
    unfolding assms(3) using assms(2) by (rule firebase_passes_keep)
  also have "\<dots> = millis_stamp net1"
    using assms(1) by (simp add: sc firebaseTask_stamp)
  finally have last: "lastAuthAttempt ss' = millis_stamp net1"
    by (simp add: sc')
  have gt: "authRetryInterval < millis_check net2 - lastAuthAttempt ss' \<longleftrightarrow> 30000 < d"
    using elapsed_gt_iff [OF assms(5), of "millis_stamp net1"] by (simp add: last assms(4))
  have shake: "FirebaseBegin \<in> set (snd (firebaseTask net2 st2 sc')) \<longleftrightarrow>
      \<not> firebaseReady ss' \<and> 30000 < d"
    by (simp add: sc' firebaseTask_begin_iff gt)
  have wait: "d \<le> 30000 \<and> \<not> firebaseReady ss' \<longrightarrow>
      firebaseTask net2 st2 sc' = (sc', [Delay 1000])"
    using gt by (simp add: sc' firebaseTask_def)
  from shake wait show ?thesis
    by (simp add: sc')
qed

text \<open>
  A handshake at 31 s after boot that succeeds; the session is lost in the next pass;
  a pass 8 s after the handshake only waits; a pass 31 s after it performs the next
  handshake.
\<close>

theorem handshake_rate_limited_witness:
  "firebaseTask
       \<lparr>millis_check = 39000, millis_stamp = 39000, handshake_ready = True, sync_ready = False,
         push_result = None, pull_result = PullNull\<rparr>
       sysState_boot (\<lparr>firebaseReady = False, lastAuthAttempt = 31000\<rparr>, sysConfig_default) =
     ((\<lparr>firebaseReady = False, lastAuthAttempt = 31000\<rparr>, sysConfig_default), [Delay 1000]) \<and>
   FirebaseBegin \<in> set (snd (firebaseTask
       \<lparr>millis_check = 62000, millis_stamp = 62000, handshake_ready = True, sync_ready = False,
         push_result = None, pull_result = PullNull\<rparr>
       sysState_boot (\<lparr>firebaseReady = False, lastAuthAttempt = 31000\<rparr>, sysConfig_default)))"
proof -
  let ?net1 = "\<lparr>millis_check = 31000, millis_stamp = 31000, handshake_ready = True,
      sync_ready = False, push_result = None, pull_result = PullNull\<rparr>"
  let ?lost = "\<lparr>millis_check = 34000, millis_stamp = 34000, handshake_ready = True,
      sync_ready = False, push_result = None, pull_result = PullNull\<rparr>"
  let ?soon = "\<lparr>millis_check = 39000, millis_stamp = 39000, handshake_ready = True,
      sync_ready = False, push_result = None, pull_result = PullNull\<rparr>"
  let ?late = "\<lparr>millis_check = 62000, millis_stamp = 62000, handshake_ready = True,
      sync_ready = False, push_result = None, pull_result = PullNull\<rparr>"
  let ?sc' = "(\<lparr>firebaseReady = False, lastAuthAttempt = 31000\<rparr>, sysConfig_default)"
  have first: "firebaseTask ?net1 sysState_boot (session_boot, sysConfig_default) =
      ((\<lparr>firebaseReady = True, lastAuthAttempt = 31000\<rparr>, sysConfig_default),
       [Log ''Attempting Firebase authentication...'', FirebaseBegin, Delay 2000,
        Log ''Firebase authenticated successfully'', Delay 1000])"
    by (simp add: firebaseTask_def session_boot_def authRetryInterval_def)
  have lost: "firebase_passes [(?lost, sysState_boot)]
      (\<lparr>firebaseReady = True, lastAuthAttempt = 31000\<rparr>, sysConfig_default) =
      (?sc', [Delay 5000])"
    by (simp add: firebaseTask_def)
  have h1: "FirebaseBegin \<in> set (snd (firebaseTask ?net1 sysState_boot (session_boot, sysConfig_default)))"
    unfolding first by simp
  have h2: "FirebaseBegin \<notin> set (snd (firebase_passes [(?lost, sysState_boot)]
      (fst (firebaseTask ?net1 sysState_boot (session_boot, sysConfig_default)))))"
    unfolding first fst_conv lost by simp
  have h3: "?sc' = fst (firebase_passes [(?lost, sysState_boot)]
      (fst (firebaseTask ?net1 sysState_boot (session_boot, sysConfig_default))))"
    unfolding first fst_conv lost by simp
  have soon: "millis_check ?soon = millis_stamp ?net1 + word_of_nat 8000"
    by simp
  have late: "millis_check ?late = millis_stamp ?net1 + word_of_nat 31000"
    by simp
  have d1: "(8000::nat) < 2 ^ 32" and d2: "(31000::nat) < 2 ^ 32"
    by simp_all
  from handshake_rate_limited [OF h1 h2 h3 soon d1, of sysState_boot]
    handshake_rate_limited [OF h1 h2 h3 late d2, of sysState_boot]
  show ?thesis by simp
qed

end
